theory Spec2Isabelle
  imports Main "HOL-Library.AList"
begin

section \<open>Identifiers and persisted types\<close>

text \<open>
  The transaction is the class \<^verbatim>\<open>Transaction\<close>. The identifier types are opaque brands
  in the source (\<^verbatim>\<open>../Identifiers\<close>); only equality is used by the interpreter. The
  persisted types (\<^verbatim>\<open>./PersistedTypes\<close>) are declared elsewhere: their fields here are
  the ones the transaction reads, under the names it uses (\<open>length\<close>, \<open>label\<close>,
  \<open>identifier\<close> and \<open>definition\<close> take a prime, \<open>end\<close> of a range is \<open>finish\<close>).
\<close>

type_synonym NodeId = string
type_synonym DetachedSequenceId = int
type_synonym TraitLabel = string
type_synonym Definition = string
type_synonym Payload = string

text \<open>
  \<^verbatim>\<open>EditNode\<close>: either a reference to a detached sequence or an inline node with
  identifier, definition, traits (an object, enumerated in key order) and optional payload.
\<close>

datatype EditNode =
    DetachedSequence DetachedSequenceId
  | TreeNode NodeId Definition "(TraitLabel \<times> EditNode list) list" "Payload option"

fun isDetachedSequenceId :: "EditNode \<Rightarrow> bool" where
  "isDetachedSequenceId (DetachedSequence d) = True"
| "isDetachedSequenceId (TreeNode i d ts p) = False"

text \<open>
  \<^verbatim>\<open>SnapshotNode\<close>: the record stored per node. The traits are a JavaScript
  \<^verbatim>\<open>Map\<close>, kept as an association list in insertion order.
\<close>

record SnapshotNode =
  identifier' :: NodeId
  definition' :: Definition
  traits :: "(TraitLabel \<times> NodeId list) list"
  payload :: "Payload option"

datatype EditValidationResult = Valid | Invalid | Malformed

datatype EditResult = Malformed | Invalid | Applied

datatype Side = Before | After

record TraitLocation =
  parent :: NodeId
  label :: TraitLabel

text \<open>
  Modelled from the spec: \<^verbatim>\<open>StablePlace\<close> (section 3) is an anchor node plus a side, or
  a trait endpoint given by parent and label; in its persisted form both references are
  optional fields, and exactly one of them is expected.
\<close>

record StablePlace =
  side :: Side
  referenceSibling :: "NodeId option"
  referenceTrait :: "TraitLocation option"

record StableRange =
  start :: StablePlace
  finish :: StablePlace

text \<open>
  A place resolved against a snapshot; the interpreter reads only \<^verbatim>\<open>trait.parent\<close> and
  \<^verbatim>\<open>trait.label\<close> of it.
\<close>

record SnapshotPlace =
  trait :: TraitLocation
  placeSide :: Side
  sibling :: "NodeId option"

text \<open>
  Modelled from the spec: the effects of a constraint that section 3 names. The transaction
  only tests for \<^verbatim>\<open>ValidRetry\<close>.
\<close>

datatype ConstraintEffect = InvalidRetry | ValidRetry

record Constraint =
  toConstrain :: StableRange
  identityHash :: "string option"
  length' :: "int option"
  contentHash :: "string option"
  parentNode :: "NodeId option"
  label' :: "TraitLabel option"
  effect :: ConstraintEffect

text \<open>The payload of a \<^verbatim>\<open>SetValue\<close>: the explicit null, or a value.\<close>

datatype SetValuePayload = Null | Value Payload

datatype Change =
    Build "EditNode list" DetachedSequenceId
  | Insert DetachedSequenceId StablePlace
  | Detach StableRange "DetachedSequenceId option"
  | Constraint Constraint
  | SetValue NodeId SetValuePayload

section \<open>Snapshot\<close>

text \<open>
  Modelled from the spec: the \<^verbatim>\<open>Snapshot\<close> class (\<^verbatim>\<open>../Snapshot\<close>) is not part of the
  sources at hand. Section 3 describes it as a mapping from NodeId to SnapshotNode plus a
  designated root, with the operations below.
\<close>

record Snapshot =
  root :: NodeId
  nodes :: "NodeId \<rightharpoonup> SnapshotNode"

definition hasNode :: "Snapshot \<Rightarrow> NodeId \<Rightarrow> bool" where
  "hasNode s i = (nodes s i \<noteq> None)"

text \<open>\<^verbatim>\<open>getSnapshotNode\<close> has the precondition \<^verbatim>\<open>hasNode\<close>; \<open>None\<close> is the violated
  precondition.\<close>

definition getSnapshotNode :: "Snapshot \<Rightarrow> NodeId \<Rightarrow> SnapshotNode option" where
  "getSnapshotNode s i = nodes s i"

text \<open>\<^verbatim>\<open>insertSnapshotNodes\<close>: the nodes of the map are added (none may already exist).\<close>

definition insertSnapshotNodes :: "Snapshot \<Rightarrow> (NodeId \<rightharpoonup> SnapshotNode) \<Rightarrow> Snapshot" where
  "insertSnapshotNodes s m = s\<lparr>nodes := nodes s ++ m\<rparr>"

text \<open>\<^verbatim>\<open>deleteNodes\<close>: those nodes, and nothing else, are removed.\<close>

definition deleteNodes :: "Snapshot \<Rightarrow> NodeId list \<Rightarrow> Snapshot" where
  "deleteNodes s ids = s\<lparr>nodes := fold (\<lambda>i m. m(i := None)) ids (nodes s)\<rparr>"

text \<open>\<^verbatim>\<open>replaceNodeData\<close>: the record stored for the identifier is replaced.\<close>

definition replaceNodeData :: "Snapshot \<Rightarrow> NodeId \<Rightarrow> SnapshotNode \<Rightarrow> Snapshot" where
  "replaceNodeData s i n = s\<lparr>nodes := (nodes s)(i \<mapsto> n)\<rparr>"

section \<open>Collaborators of the interpreter\<close>

text \<open>
  The functions of \<^verbatim>\<open>./EditUtilities\<close> and \<^verbatim>\<open>Snapshot.findIndexWithinTrait\<close> are
  imported by the transaction but their code is not at hand, and the spec leaves their
  classification table to the implementer. The interpreter takes them as a parameter.
\<close>

record EditUtilities =
  validateStablePlace :: "Snapshot \<Rightarrow> StablePlace \<Rightarrow> EditValidationResult"
  validateStableRange :: "Snapshot \<Rightarrow> StableRange \<Rightarrow> EditValidationResult"
  rangeFromStableRange :: "Snapshot \<Rightarrow> StableRange \<Rightarrow> SnapshotPlace \<times> SnapshotPlace"
  detachRange :: "Snapshot \<Rightarrow> StableRange \<Rightarrow> Snapshot \<times> NodeId list"
  insertIntoTrait :: "Snapshot \<Rightarrow> NodeId list \<Rightarrow> StablePlace \<Rightarrow> Snapshot"
  findIndexWithinTrait :: "Snapshot \<Rightarrow> SnapshotPlace \<Rightarrow> int"

section \<open>Transaction state\<close>

datatype Status = Open | Closed

text \<open>
  The state of a transaction: \<open>detached\<close> is the field of \<^verbatim>\<open>Transaction\<close>; \<open>view\<close> is
  the inherited \<^verbatim>\<open>_view\<close>. Modelled from the spec: \<open>status\<close> and \<open>outcome\<close> belong to
  \<^verbatim>\<open>GenericTransaction\<close> (\<^verbatim>\<open>../generic\<close>), which is not at hand; section 3 gives the
  transaction state as view, detached, status and outcome.
\<close>

record Transaction =
  view :: Snapshot
  detached :: "DetachedSequenceId \<rightharpoonup> NodeId list"
  status :: Status
  outcome :: EditResult

text \<open>Failed assertions and \<^verbatim>\<open>fail\<close> calls are defects, not edit results.\<close>

datatype Defect = AssertionFailed string | Failure string

definition validateOnClose :: "Transaction \<Rightarrow> EditResult" where
  "validateOnClose t = (if detached t \<noteq> Map.empty then Malformed else Applied)"

section \<open>Creating snapshot nodes from edit nodes\<close>

text \<open>
  \<^verbatim>\<open>getDetachedNodeIds\<close>: the callbacks of the source are closures over locals of their
  caller; here they transform a state \<open>'c\<close> that is threaded next to the transaction.
\<close>

definition getDetachedNodeIds ::
  "DetachedSequenceId \<Rightarrow> ('c \<Rightarrow> 'c) \<Rightarrow> Transaction \<times> 'c \<Rightarrow> NodeId list option \<times> Transaction \<times> 'c" where
  "getDetachedNodeIds detachedId onInvalidDetachedId = (\<lambda>(t, c).
     case detached t detachedId of
       None \<Rightarrow> (None, t, onInvalidDetachedId c)
     | Some detachedNodeIds \<Rightarrow>
         (Some detachedNodeIds, t\<lparr>detached := (detached t)(detachedId := None)\<rparr>, c))"

text \<open>
  The loop over a sequence of edit nodes, as written twice in the source: over the top-level
  sequence (accumulating \<^verbatim>\<open>topLevelIds\<close>) and over the children of one trait (accumulating
  \<^verbatim>\<open>childIds\<close>). Inline nodes are pushed on \<^verbatim>\<open>unprocessed\<close>; the stack is a list whose
  head is the top. \<open>None\<close> is the early \<^verbatim>\<open>return undefined\<close>.
\<close>

fun collectIds ::
  "('c \<Rightarrow> 'c) \<Rightarrow> EditNode list \<Rightarrow> NodeId list \<Rightarrow> EditNode list \<Rightarrow> Transaction \<times> 'c
     \<Rightarrow> (NodeId list \<times> EditNode list) option \<times> Transaction \<times> 'c" where
  "collectIds onInvalidDetachedId [] ids unprocessed (t, c) = (Some (ids, unprocessed), t, c)"
| "collectIds onInvalidDetachedId (DetachedSequence d # rest) ids unprocessed (t, c) =
     (case getDetachedNodeIds d onInvalidDetachedId (t, c) of
        (None, t', c') \<Rightarrow> (None, t', c')
      | (Some detachedIds, t', c') \<Rightarrow>
          collectIds onInvalidDetachedId rest (ids @ detachedIds) unprocessed (t', c'))"
| "collectIds onInvalidDetachedId (TreeNode i d ts p # rest) ids unprocessed (t, c) =
     collectIds onInvalidDetachedId rest (ids @ [i]) (TreeNode i d ts p # unprocessed) (t, c)"

text \<open>The loop over the keys of \<^verbatim>\<open>node.traits\<close>, filling the \<^verbatim>\<open>traits\<close> map.\<close>

fun collectTraits ::
  "('c \<Rightarrow> 'c) \<Rightarrow> (TraitLabel \<times> EditNode list) list \<Rightarrow> (TraitLabel \<times> NodeId list) list
     \<Rightarrow> EditNode list \<Rightarrow> Transaction \<times> 'c
     \<Rightarrow> ((TraitLabel \<times> NodeId list) list \<times> EditNode list) option \<times> Transaction \<times> 'c" where
  "collectTraits onInvalidDetachedId [] traitMap unprocessed (t, c) =
     (Some (traitMap, unprocessed), t, c)"
| "collectTraits onInvalidDetachedId ((key, children) # rest) traitMap unprocessed (t, c) =
     (case collectIds onInvalidDetachedId children [] unprocessed (t, c) of
        (None, t', c') \<Rightarrow> (None, t', c')
      | (Some (childIds, unprocessed'), t', c') \<Rightarrow>
          collectTraits onInvalidDetachedId rest (AList.update key childIds traitMap)
            unprocessed' (t', c'))"

text \<open>What the two loops leave on the stack is bounded by what they were given.\<close>

lemma collectIds_size:
  "collectIds onI es ids unp s = (Some (ids', unp'), s')
     \<Longrightarrow> sum_list (map size unp') \<le> sum_list (map size unp) + sum_list (map size es)"
proof (induction onI es ids unp s rule: collectIds.induct)
  case (1 onI ids unp t c)
  then show ?case by simp
next
  case (2 onI d rest ids unp t c)
  then show ?case
    by (auto simp: getDetachedNodeIds_def split: option.splits prod.splits)
next
  case (3 onI i d ts p rest ids unp t c)
  then show ?case by fastforce
qed

lemma collectTraits_size:
  "collectTraits onI ts tm unp s = (Some (tm', unp'), s')
     \<Longrightarrow> sum_list (map size unp')
           \<le> sum_list (map size unp) + sum_list (map (\<lambda>(k, es). sum_list (map size es)) ts)"
proof (induction onI ts tm unp s arbitrary: tm' unp' s' rule: collectTraits.induct)
  case (1 onI tm unp t c)
  then show ?case by simp
next
  case (2 onI key children rest tm unp t c)
  from "2.prems" obtain childIds unp1 t1 c1 where
    a: "collectIds onI children [] unp (t, c) = (Some (childIds, unp1), t1, c1)" and
    b: "collectTraits onI rest (AList.update key childIds tm) unp1 (t1, c1) = (Some (tm', unp'), s')"
    by (auto split: option.splits prod.splits)
  from collectIds_size [OF a] "2.IH" [OF _ _ _ _ b] a
  show ?case by fastforce
qed

lemma size_traits_less:
  "sum_list (map (\<lambda>(k, es). sum_list (map size es)) ts) < size (TreeNode i d ts p)"
proof -
  have "sum_list (map (\<lambda>(k, es). sum_list (map size es)) ts)
          \<le> size_list (size_prod (\<lambda>_. 0) (size_list size)) ts"
  proof (induction ts)
    case Nil
    then show ?case by simp
  next
    case (Cons a ts)
    have "sum_list (map size es) \<le> size_list size es" for es :: "EditNode list"
      by (induction es) auto
    with Cons show ?case
      by (cases a) (auto simp: add_mono le_SucI trans_le_add1)
  qed
  then show ?thesis by simp
qed

text \<open>
  The \<^verbatim>\<open>while (unprocessed.length > 0)\<close> loop. \<open>True\<close> in the result means the stack was
  emptied; \<open>False\<close> is the early \<^verbatim>\<open>return undefined\<close>. The property
  \<^verbatim>\<open>payload\<close> is copied when defined.
\<close>

function processUnprocessed ::
  "(NodeId \<Rightarrow> SnapshotNode \<Rightarrow> 'c \<Rightarrow> bool \<times> 'c) \<Rightarrow> ('c \<Rightarrow> 'c) \<Rightarrow> EditNode list
     \<Rightarrow> Transaction \<times> 'c \<Rightarrow> Defect + (bool \<times> Transaction \<times> 'c)" where
  "processUnprocessed onCreateNode onInvalidDetachedId [] (t, c) = Inr (True, t, c)"
| "processUnprocessed onCreateNode onInvalidDetachedId (DetachedSequence d # rest) (t, c) =
     Inl (AssertionFailed [])"
| "processUnprocessed onCreateNode onInvalidDetachedId (TreeNode i d ts p # rest) (t, c) =
     (case collectTraits onInvalidDetachedId ts [] rest (t, c) of
        (None, t', c') \<Rightarrow> Inr (False, t', c')
      | (Some (traitMap, unprocessed'), t', c') \<Rightarrow>
          (case onCreateNode i
                  \<lparr>identifier' = i, definition' = d, traits = traitMap, payload = p\<rparr> c' of
             (True, c'') \<Rightarrow> Inr (False, t', c'')
           | (False, c'') \<Rightarrow>
               processUnprocessed onCreateNode onInvalidDetachedId unprocessed' (t', c'')))"
  by pat_completeness auto
termination
proof (relation "measure (\<lambda>(onC, onI, unp, s). sum_list (map size unp))")
  show "wf (measure (\<lambda>(onC :: NodeId \<Rightarrow> SnapshotNode \<Rightarrow> 'c \<Rightarrow> bool \<times> 'c, onI :: 'c \<Rightarrow> 'c,
                        unp :: EditNode list, s :: Transaction \<times> 'c). sum_list (map size unp)))"
    by simp
next
  fix onCreateNode :: "NodeId \<Rightarrow> SnapshotNode \<Rightarrow> 'c \<Rightarrow> bool \<times> 'c"
    and onInvalidDetachedId :: "'c \<Rightarrow> 'c"
    and i d ts p rest t c x1 x2 x1a x2a a x1b x2b x1c x2c
  assume "(x1, x2) = collectTraits onInvalidDetachedId ts [] rest (t, c)"
    and "x1 = Some a" and "(x1a, x2a) = a" and "(x1b, x2b) = x2"
  then have "collectTraits onInvalidDetachedId ts [] rest (t, c) = (Some (x1a, x2a), x1b, x2b)"
    by (metis)
  from collectTraits_size [OF this] size_traits_less [of ts i d p]
  show "((onCreateNode, onInvalidDetachedId, x2a, x1b, x2c),
         (onCreateNode, onInvalidDetachedId, TreeNode i d ts p # rest, t, c))
        \<in> measure (\<lambda>(onC, onI, unp, s). sum_list (map size unp))"
    by simp
qed

text \<open>\<^verbatim>\<open>createSnapshotNodesForTree\<close>: \<open>None\<close> in the result is \<^verbatim>\<open>undefined\<close>.\<close>

definition createSnapshotNodesForTree ::
  "EditNode list \<Rightarrow> (NodeId \<Rightarrow> SnapshotNode \<Rightarrow> 'c \<Rightarrow> bool \<times> 'c) \<Rightarrow> ('c \<Rightarrow> 'c)
     \<Rightarrow> Transaction \<times> 'c \<Rightarrow> Defect + (NodeId list option \<times> Transaction \<times> 'c)" where
  "createSnapshotNodesForTree sequence onCreateNode onInvalidDetachedId s =
     (case collectIds onInvalidDetachedId sequence [] [] s of
        (None, s') \<Rightarrow> Inr (None, s')
      | (Some (topLevelIds, unprocessed), s') \<Rightarrow>
          (case processUnprocessed onCreateNode onInvalidDetachedId unprocessed s' of
             Inl defect \<Rightarrow> Inl defect
           | Inr (False, s'') \<Rightarrow> Inr (None, s'')
           | Inr (True, s'') \<Rightarrow> Inr (Some topLevelIds, s'')))"


section \<open>The five change kinds\<close>

text \<open>
  The locals of \<^verbatim>\<open>applyBuild\<close> that its two callbacks assign. The first callback reads
  \<^verbatim>\<open>this.view\<close>, which no step of the traversal assigns, so it takes the view of the
  transaction at the call of \<^verbatim>\<open>applyBuild\<close>.
\<close>

record BuildLocals =
  idAlreadyPresent :: bool
  duplicateIdInBuild :: bool
  map' :: "NodeId \<rightharpoonup> SnapshotNode"
  detachedSequenceNotFound :: bool

definition applyBuild_locals :: BuildLocals where
  "applyBuild_locals = \<lparr>idAlreadyPresent = False, duplicateIdInBuild = False,
     map' = Map.empty, detachedSequenceNotFound = False\<rparr>"

definition applyBuild_onCreateNode ::
  "Snapshot \<Rightarrow> NodeId \<Rightarrow> SnapshotNode \<Rightarrow> BuildLocals \<Rightarrow> bool \<times> BuildLocals" where
  "applyBuild_onCreateNode v i snapshotNode c =
     (if map' c i \<noteq> None then (True, c\<lparr>duplicateIdInBuild := True\<rparr>)
      else if hasNode v i then (True, c\<lparr>idAlreadyPresent := True\<rparr>)
      else (False, c\<lparr>map' := (map' c)(i \<mapsto> snapshotNode)\<rparr>))"

definition applyBuild_onInvalidDetachedId :: "BuildLocals \<Rightarrow> BuildLocals" where
  "applyBuild_onInvalidDetachedId c = c\<lparr>detachedSequenceNotFound := True\<rparr>"

definition applyBuild ::
  "EditNode list \<Rightarrow> DetachedSequenceId \<Rightarrow> Transaction \<Rightarrow> Defect + (EditResult \<times> Transaction)" where
  "applyBuild source destination t =
     (if detached t destination \<noteq> None then Inr (EditResult.Malformed, t)
      else
        case createSnapshotNodesForTree source (applyBuild_onCreateNode (view t))
               applyBuild_onInvalidDetachedId (t, applyBuild_locals) of
          Inl defect \<Rightarrow> Inl defect
        | Inr (newIds, t', c) \<Rightarrow>
            if detachedSequenceNotFound c \<or> duplicateIdInBuild c
            then Inr (EditResult.Malformed, t')
            else if idAlreadyPresent c then Inr (EditResult.Invalid, t')
            else
              (case newIds of
                 None \<Rightarrow> Inl (AssertionFailed [])
               | Some ids \<Rightarrow>
                   Inr (Applied,
                     t'\<lparr>view := insertSnapshotNodes (view t') (map' c),
                        detached := (detached t')(destination \<mapsto> ids)\<rparr>)))"

definition applyInsert ::
  "EditUtilities \<Rightarrow> DetachedSequenceId \<Rightarrow> StablePlace \<Rightarrow> Transaction
     \<Rightarrow> Defect + (EditResult \<times> Transaction)" where
  "applyInsert u source destination t =
     (case detached t source of
        None \<Rightarrow> Inr (EditResult.Malformed, t)
      | Some ids \<Rightarrow>
          (let destinationChangeResult = validateStablePlace u (view t) destination in
           if destinationChangeResult \<noteq> Valid
           then Inr (if destinationChangeResult = EditValidationResult.Invalid
                     then EditResult.Invalid else EditResult.Malformed, t)
           else Inr (Applied,
                  t\<lparr>view := insertIntoTrait u (view t) ids destination,
                    detached := (detached t)(source := None)\<rparr>)))"

definition applyDetach ::
  "EditUtilities \<Rightarrow> StableRange \<Rightarrow> DetachedSequenceId option \<Rightarrow> Transaction
     \<Rightarrow> Defect + (EditResult \<times> Transaction)" where
  "applyDetach u source destination t =
     (let sourceChangeResult = validateStableRange u (view t) source in
      if sourceChangeResult \<noteq> Valid
      then Inr (if sourceChangeResult = EditValidationResult.Invalid
                then EditResult.Invalid else EditResult.Malformed, t)
      else
        (let (modifiedView, ids) = detachRange u (view t) source in
         case destination of
           Some dest \<Rightarrow>
             if detached t dest \<noteq> None then Inr (EditResult.Malformed, t)
             else Inr (Applied, t\<lparr>view := modifiedView, detached := (detached t)(dest \<mapsto> ids)\<rparr>)
         | None \<Rightarrow> Inr (Applied, t\<lparr>view := deleteNodes modifiedView ids\<rparr>)))"

definition applyConstraint ::
  "EditUtilities \<Rightarrow> Constraint \<Rightarrow> Transaction \<Rightarrow> Defect + (EditResult \<times> Transaction)" where
  "applyConstraint u change t =
     (if identityHash change \<noteq> None
      then Inl (AssertionFailed ''identityHash constraint is not implemented'')
      else if contentHash change \<noteq> None
      then Inl (AssertionFailed ''contentHash constraint is not implemented'')
      else
        (let sourceChangeResult = validateStableRange u (view t) (toConstrain change);
             onViolation = (if effect change = ValidRetry then Applied else EditResult.Invalid)
         in
         if sourceChangeResult \<noteq> Valid
         then Inr (if sourceChangeResult = EditValidationResult.Invalid
                   then onViolation else EditResult.Malformed, t)
         else
           (let (startPlace, endPlace) = rangeFromStableRange u (view t) (toConstrain change);
                startIndex = findIndexWithinTrait u (view t) startPlace;
                endIndex = findIndexWithinTrait u (view t) endPlace
            in
            if length' change \<noteq> None \<and> length' change \<noteq> Some (endIndex - startIndex)
            then Inr (onViolation, t)
            else if parentNode change \<noteq> None
                    \<and> parentNode change \<noteq> Some (parent (trait endPlace))
            then Inr (onViolation, t)
            else if label' change \<noteq> None \<and> label' change \<noteq> Some (label (trait endPlace))
            then Inr (onViolation, t)
            else Inr (Applied, t))))"

definition applySetValue ::
  "NodeId \<Rightarrow> SetValuePayload \<Rightarrow> Transaction \<Rightarrow> Defect + (EditResult \<times> Transaction)" where
  "applySetValue nodeToModify newPayload t =
     (if \<not> hasNode (view t) nodeToModify then Inr (EditResult.Invalid, t)
      else
        case getSnapshotNode (view t) nodeToModify of
          None \<Rightarrow> Inl (Failure ''NodeId not found'')
        | Some node \<Rightarrow>
            (let newNode = (case newPayload of
                              Null \<Rightarrow> node\<lparr>payload := None\<rparr>
                            | Value v \<Rightarrow> node\<lparr>payload := Some v\<rparr>)
             in Inr (Applied, t\<lparr>view := replaceNodeData (view t) nodeToModify newNode\<rparr>)))"

text \<open>
  \<^verbatim>\<open>dispatchChange\<close>: the \<^verbatim>\<open>default\<close> branch of the switch has no counterpart, the
  datatype of changes being closed.
\<close>

fun dispatchChange ::
  "EditUtilities \<Rightarrow> Change \<Rightarrow> Transaction \<Rightarrow> Defect + (EditResult \<times> Transaction)" where
  "dispatchChange u (Build source destination) t = applyBuild source destination t"
| "dispatchChange u (Insert source destination) t = applyInsert u source destination t"
| "dispatchChange u (Detach source destination) t = applyDetach u source destination t"
| "dispatchChange u (Constraint change) t = applyConstraint u change t"
| "dispatchChange u (SetValue nodeToModify newPayload) t = applySetValue nodeToModify newPayload t"

section \<open>The generic transaction\<close>

text \<open>
  Modelled from the spec: \<^verbatim>\<open>GenericTransaction\<close> (\<^verbatim>\<open>../generic\<close>) is not at hand.
  Section 4.1: construction sets the view to the initial snapshot, the registry empty,
  the status Open and the outcome Applied.
\<close>

definition newTransaction :: "Snapshot \<Rightarrow> Transaction" where
  "newTransaction initial =
     \<lparr>view = initial, detached = Map.empty, status = Open, outcome = Applied\<rparr>"

text \<open>
  Modelled from the spec: \<^verbatim>\<open>apply\<close> of section 4.1, which is missing with
  \<^verbatim>\<open>GenericTransaction\<close>. It dispatches on the change kind; on a failure the status becomes
  Closed and the outcome is frozen with the classification; after closure it is a no-op
  returning the terminal outcome.
\<close>

definition applyChange ::
  "EditUtilities \<Rightarrow> Change \<Rightarrow> Transaction \<Rightarrow> Defect + (EditResult \<times> Transaction)" where
  "applyChange u change t =
     (if status t = Closed then Inr (outcome t, t)
      else
        case dispatchChange u change t of
          Inl defect \<Rightarrow> Inl defect
        | Inr (result, t') \<Rightarrow>
            if result = Applied then Inr (result, t')
            else Inr (result, t'\<lparr>status := Closed, outcome := result\<rparr>))"

text \<open>
  Modelled from the spec: \<^verbatim>\<open>close\<close> of section 4.1, which is missing with
  \<^verbatim>\<open>GenericTransaction\<close>. If the transaction is still Open it runs \<^verbatim>\<open>validateOnClose\<close>,
  whose result becomes the outcome; a transaction already closed keeps its outcome.
\<close>

definition close :: "Transaction \<Rightarrow> Transaction" where
  "close t =
     (if status t = Open then t\<lparr>status := Closed, outcome := validateOnClose t\<rparr> else t)"


section \<open>A reference implementation of the collaborators\<close>

text \<open>
  Modelled from the spec: the validation and splice primitives of section 6, whose code is
  not at hand, for documents whose edited traits hang directly under the root. A place is
  malformed unless exactly one of its two references is given; it is invalid when its
  anchor or its trait's parent is not found. The theorems on the interpreter hold for every
  implementation; this one serves to run the interpreter on concrete documents.
\<close>

definition traitChildren :: "Snapshot \<Rightarrow> TraitLocation \<Rightarrow> NodeId list" where
  "traitChildren s loc =
     (case nodes s (parent loc) of
        None \<Rightarrow> []
      | Some p \<Rightarrow> (case map_of (traits p) (label loc) of None \<Rightarrow> [] | Some ids \<Rightarrow> ids))"

definition traitOfSibling :: "Snapshot \<Rightarrow> NodeId \<Rightarrow> TraitLocation option" where
  "traitOfSibling s n =
     (case nodes s (root s) of
        None \<Rightarrow> None
      | Some r \<Rightarrow>
          (case find (\<lambda>(l, ids). n \<in> set ids) (traits r) of
             None \<Rightarrow> None
           | Some (l, ids) \<Rightarrow> Some \<lparr>parent = root s, label = l\<rparr>))"

definition placeTrait :: "Snapshot \<Rightarrow> StablePlace \<Rightarrow> TraitLocation option" where
  "placeTrait s p =
     (case (referenceSibling p, referenceTrait p) of
        (Some n, None) \<Rightarrow> traitOfSibling s n
      | (None, Some loc) \<Rightarrow> (if hasNode s (parent loc) then Some loc else None)
      | _ \<Rightarrow> None)"

definition indexIn :: "NodeId list \<Rightarrow> Side \<Rightarrow> NodeId option \<Rightarrow> nat" where
  "indexIn ids sd sib =
     (case sib of
        None \<Rightarrow> (if sd = After then 0 else length ids)
      | Some n \<Rightarrow> length (takeWhile (\<lambda>x. x \<noteq> n) ids) + (if sd = After then 1 else 0))"

definition resolvePlace :: "Snapshot \<Rightarrow> StablePlace \<Rightarrow> SnapshotPlace" where
  "resolvePlace s p =
     \<lparr>trait = (case placeTrait s p of
                 Some loc \<Rightarrow> loc
               | None \<Rightarrow> \<lparr>parent = root s, label = []\<rparr>),
      placeSide = side p, sibling = referenceSibling p\<rparr>"

definition flat_findIndexWithinTrait :: "Snapshot \<Rightarrow> SnapshotPlace \<Rightarrow> int" where
  "flat_findIndexWithinTrait s pl =
     int (indexIn (traitChildren s (trait pl)) (placeSide pl) (sibling pl))"

definition flat_validateStablePlace :: "Snapshot \<Rightarrow> StablePlace \<Rightarrow> EditValidationResult" where
  "flat_validateStablePlace s p =
     (if (referenceSibling p = None) = (referenceTrait p = None)
      then EditValidationResult.Malformed
      else if placeTrait s p = None then EditValidationResult.Invalid
      else Valid)"

definition flat_rangeFromStableRange ::
  "Snapshot \<Rightarrow> StableRange \<Rightarrow> SnapshotPlace \<times> SnapshotPlace" where
  "flat_rangeFromStableRange s r = (resolvePlace s (start r), resolvePlace s (finish r))"

definition flat_validateStableRange :: "Snapshot \<Rightarrow> StableRange \<Rightarrow> EditValidationResult" where
  "flat_validateStableRange s r =
     (let a = flat_validateStablePlace s (start r) in
      if a \<noteq> Valid then a
      else
        let b = flat_validateStablePlace s (finish r) in
        if b \<noteq> Valid then b
        else if placeTrait s (start r) \<noteq> placeTrait s (finish r)
        then EditValidationResult.Invalid
        else if flat_findIndexWithinTrait s (resolvePlace s (finish r))
                  < flat_findIndexWithinTrait s (resolvePlace s (start r))
        then EditValidationResult.Invalid
        else Valid)"

definition setTraitChildren :: "Snapshot \<Rightarrow> TraitLocation \<Rightarrow> NodeId list \<Rightarrow> Snapshot" where
  "setTraitChildren s loc ids =
     (case nodes s (parent loc) of
        None \<Rightarrow> s
      | Some p \<Rightarrow>
          s\<lparr>nodes := (nodes s)(parent loc \<mapsto> p\<lparr>traits := AList.update (label loc) ids (traits p)\<rparr>)\<rparr>)"

definition flat_detachRange :: "Snapshot \<Rightarrow> StableRange \<Rightarrow> Snapshot \<times> NodeId list" where
  "flat_detachRange s r =
     (let (a, b) = flat_rangeFromStableRange s r;
          ch = traitChildren s (trait a);
          i = nat (flat_findIndexWithinTrait s a);
          j = nat (flat_findIndexWithinTrait s b)
      in (setTraitChildren s (trait a) (take i ch @ drop j ch), take (j - i) (drop i ch)))"

definition flat_insertIntoTrait :: "Snapshot \<Rightarrow> NodeId list \<Rightarrow> StablePlace \<Rightarrow> Snapshot" where
  "flat_insertIntoTrait s ids p =
     (let pl = resolvePlace s p;
          ch = traitChildren s (trait pl);
          i = nat (flat_findIndexWithinTrait s pl)
      in setTraitChildren s (trait pl) (take i ch @ ids @ drop i ch))"

definition flatUtilities :: EditUtilities where
  "flatUtilities =
     \<lparr>validateStablePlace = flat_validateStablePlace,
      validateStableRange = flat_validateStableRange,
      rangeFromStableRange = flat_rangeFromStableRange,
      detachRange = flat_detachRange,
      insertIntoTrait = flat_insertIntoTrait,
      findIndexWithinTrait = flat_findIndexWithinTrait\<rparr>"

text \<open>A document: the root \<open>R\<close> with the trait \<open>L\<close> holding the leaves \<open>A\<close>, \<open>B\<close>, \<open>C\<close>.\<close>

definition leaf :: "NodeId \<Rightarrow> SnapshotNode" where
  "leaf i = \<lparr>identifier' = i, definition' = ''D'', traits = [], payload = None\<rparr>"

definition rootNode :: SnapshotNode where
  "rootNode = \<lparr>identifier' = ''R'', definition' = ''D'',
     traits = [(''L'', [''A'', ''B'', ''C''])], payload = None\<rparr>"

definition document :: Snapshot where
  "document = \<lparr>root = ''R'',
     nodes = [''R'' \<mapsto> rootNode, ''A'' \<mapsto> leaf ''A'', ''B'' \<mapsto> leaf ''B'', ''C'' \<mapsto> leaf ''C'']\<rparr>"

definition beforeNode :: "NodeId \<Rightarrow> StablePlace" where
  "beforeNode n = \<lparr>side = Before, referenceSibling = Some n, referenceTrait = None\<rparr>"

definition afterNode :: "NodeId \<Rightarrow> StablePlace" where
  "afterNode n = \<lparr>side = After, referenceSibling = Some n, referenceTrait = None\<rparr>"

definition atStartOf :: "TraitLocation \<Rightarrow> StablePlace" where
  "atStartOf loc = \<lparr>side = After, referenceSibling = None, referenceTrait = Some loc\<rparr>"

definition atEndOf :: "TraitLocation \<Rightarrow> StablePlace" where
  "atEndOf loc = \<lparr>side = Before, referenceSibling = None, referenceTrait = Some loc\<rparr>"

definition onlyNode :: "NodeId \<Rightarrow> StableRange" where
  "onlyNode n = \<lparr>start = beforeNode n, finish = afterNode n\<rparr>"


definition rootTrait :: TraitLocation where
  "rootTrait = \<lparr>parent = ''R'', label = ''L''\<rparr>"

definition wholeTrait :: StableRange where
  "wholeTrait = \<lparr>start = atStartOf rootTrait, finish = atEndOf rootTrait\<rparr>"

definition noPlace :: StablePlace where
  "noPlace = \<lparr>side = After, referenceSibling = None, referenceTrait = None\<rparr>"

text \<open>A constraint on the length of the whole trait, with the given effect.\<close>

definition lengthConstraint :: "ConstraintEffect \<Rightarrow> int \<Rightarrow> Constraint" where
  "lengthConstraint e n =
     \<lparr>toConstrain = wholeTrait, identityHash = None, length' = Some n, contentHash = None,
      parentNode = None, label' = None, effect = e\<rparr>"

text \<open>
  An open transaction over the document that holds the built node \<open>N\<close> as the detached
  sequence 1: the state after \<^verbatim>\<open>Build([N], 1)\<close>.
\<close>

definition holding :: Transaction where
  "holding = \<lparr>view = insertSnapshotNodes document [''N'' \<mapsto> leaf ''N''],
     detached = [1 \<mapsto> [''N'']], status = Open, outcome = Applied\<rparr>"

section \<open>Notions of the specification\<close>

text \<open>
  A constraint is violated, in the words of section 4.5, when its range validates as
  Invalid, or when the range is Valid and a present property differs: the length from
  \<^verbatim>\<open>endIndex - startIndex\<close>, the parent node or the label from those of the trait of the
  end of the range.
\<close>

definition spec_constraintViolation :: "EditUtilities \<Rightarrow> Constraint \<Rightarrow> Snapshot \<Rightarrow> bool" where
  "spec_constraintViolation u change v =
     (validateStableRange u v (toConstrain change) = EditValidationResult.Invalid
      \<or> (validateStableRange u v (toConstrain change) = Valid
          \<and> (let (startPlace, endPlace) = rangeFromStableRange u v (toConstrain change);
                  startIndex = findIndexWithinTrait u v startPlace;
                  endIndex = findIndexWithinTrait u v endPlace
              in (case length' change of None \<Rightarrow> False | Some n \<Rightarrow> n \<noteq> endIndex - startIndex)
                 \<or> (case parentNode change of None \<Rightarrow> False
                     | Some p \<Rightarrow> p \<noteq> parent (trait endPlace))
                 \<or> (case label' change of None \<Rightarrow> False
                     | Some l \<Rightarrow> l \<noteq> label (trait endPlace)))))"

text \<open>
  The traversal of a build, told as the events it meets in order. A reference to a detached
  sequence is resolved where the loop over its sequence stands; a node is created when it
  is taken from the stack, after the references among its children have been resolved and
  its inline children pushed. The stack returns the last pushed node first, so the inline
  nodes of a sequence are created last first, each before its own children.
\<close>

datatype TraversalEvent = Resolve DetachedSequenceId | Create NodeId

fun referencesOf :: "EditNode list \<Rightarrow> DetachedSequenceId list" where
  "referencesOf [] = []"
| "referencesOf (DetachedSequence d # es) = d # referencesOf es"
| "referencesOf (TreeNode i d ts p # es) = referencesOf es"

fun inlineNodes :: "EditNode list \<Rightarrow> EditNode list" where
  "inlineNodes [] = []"
| "inlineNodes (DetachedSequence d # es) = inlineNodes es"
| "inlineNodes (TreeNode i d ts p # es) = TreeNode i d ts p # inlineNodes es"

definition childrenOf :: "(TraitLabel \<times> EditNode list) list \<Rightarrow> EditNode list" where
  "childrenOf ts = concat (map snd ts)"

lemma inlineNodes_size: "sum_list (map size (inlineNodes es)) \<le> sum_list (map size es)"
  by (induction es rule: inlineNodes.induct) simp_all

lemma childrenOf_size:
  "sum_list (map size (childrenOf ts)) = sum_list (map (\<lambda>(k, es). sum_list (map size es)) ts)"
  by (induction ts) (auto simp: childrenOf_def)

lemma inline_child_smaller:
  assumes "x \<in> set (inlineNodes (childrenOf ts))"
  shows "size x < size (TreeNode i d ts p)"
proof -
  have "y \<in> set ys \<Longrightarrow> size y \<le> sum_list (map size ys)" for y :: EditNode and ys
    by (induction ys) auto
  from this [OF assms] have "size x \<le> sum_list (map size (inlineNodes (childrenOf ts)))" .
  also have "\<dots> \<le> sum_list (map size (childrenOf ts))"
    by (rule inlineNodes_size)
  also have "\<dots> < size (TreeNode i d ts p)"
    unfolding childrenOf_size by (rule size_traits_less)
  finally show ?thesis .
qed

function nodeEvents :: "EditNode \<Rightarrow> TraversalEvent list" where
  "nodeEvents (DetachedSequence d) = []"
| "nodeEvents (TreeNode i d ts p) =
     map Resolve (referencesOf (childrenOf ts))
       @ Create i # concat (map nodeEvents (rev (inlineNodes (childrenOf ts))))"
  by pat_completeness auto
termination
proof (relation "measure size")
  show "wf (measure (size :: EditNode \<Rightarrow> nat))"
    by simp
next
  fix i d ts p x
  assume "x \<in> set (rev (inlineNodes (childrenOf ts)))"
  then have "x \<in> set (inlineNodes (childrenOf ts))"
    by simp
  from inline_child_smaller [OF this]
  show "(x, TreeNode i d ts p) \<in> measure size"
    by (simp only: in_measure)
qed

definition buildEvents :: "EditNode list \<Rightarrow> TraversalEvent list" where
  "buildEvents source =
     map Resolve (referencesOf source) @ concat (map nodeEvents (rev (inlineNodes source)))"

text \<open>
  What the events come to, read in order against the view, the registry and the
  identifiers created so far. Resolving a sequence that the registry does not hold is
  Malformed; resolving one that it holds removes it. Creating an identifier already created
  in this build is Malformed, creating one that the view holds is Invalid. The reading
  stops at the first of these conditions; the result is its classification, or Applied if
  there is none, with the registry as it then stands.
\<close>

fun traversalOutcome ::
  "Snapshot \<Rightarrow> (DetachedSequenceId \<rightharpoonup> NodeId list) \<Rightarrow> NodeId set \<Rightarrow> TraversalEvent list
     \<Rightarrow> EditResult \<times> (DetachedSequenceId \<rightharpoonup> NodeId list)" where
  "traversalOutcome v registry created [] = (Applied, registry)"
| "traversalOutcome v registry created (Resolve d # events) =
     (if registry d = None then (EditResult.Malformed, registry)
      else traversalOutcome v (registry(d := None)) created events)"
| "traversalOutcome v registry created (Create i # events) =
     (if i \<in> created then (EditResult.Malformed, registry)
      else if hasNode v i then (EditResult.Invalid, registry)
      else traversalOutcome v registry (insert i created) events)"

text \<open>The identifiers that the events create, in order.\<close>

fun createdIds :: "TraversalEvent list \<Rightarrow> NodeId list" where
  "createdIds [] = []"
| "createdIds (Resolve d # events) = createdIds events"
| "createdIds (Create i # events) = i # createdIds events"

definition firstCondition :: "Snapshot \<Rightarrow> (DetachedSequenceId \<rightharpoonup> NodeId list) \<Rightarrow> EditNode list \<Rightarrow> EditResult" where
  "firstCondition v registry source = fst (traversalOutcome v registry {} (buildEvents source))"

definition registryAtHalt ::
  "Snapshot \<Rightarrow> (DetachedSequenceId \<rightharpoonup> NodeId list) \<Rightarrow> EditNode list
     \<Rightarrow> (DetachedSequenceId \<rightharpoonup> NodeId list)" where
  "registryAtHalt v registry source = snd (traversalOutcome v registry {} (buildEvents source))"

text \<open>
  The registry that a change leaves when it fails: only a Build with a free destination has
  touched it by then.
\<close>

fun registryAfterFailure :: "Change \<Rightarrow> Transaction \<Rightarrow> (DetachedSequenceId \<rightharpoonup> NodeId list)" where
  "registryAfterFailure (Build source destination) t =
     (if detached t destination \<noteq> None then detached t
      else registryAtHalt (view t) (detached t) source)"
| "registryAfterFailure (Insert source destination) t = detached t"
| "registryAfterFailure (Detach source destination) t = detached t"
| "registryAfterFailure (Constraint change) t = detached t"
| "registryAfterFailure (SetValue nodeToModify newPayload) t = detached t"

text \<open>The verdict that \<^verbatim>\<open>applyBuild\<close> reads off its locals after the traversal.\<close>

definition verdict :: "BuildLocals \<Rightarrow> EditResult" where
  "verdict c =
     (if detachedSequenceNotFound c \<or> duplicateIdInBuild c then EditResult.Malformed
      else if idAlreadyPresent c then EditResult.Invalid
      else Applied)"

text \<open>Two inline leaves for builds: a fresh identifier and one the document holds.\<close>

definition nodeX :: EditNode where
  "nodeX = TreeNode ''X'' ''D'' [] None"

definition nodeA :: EditNode where
  "nodeA = TreeNode ''A'' ''D'' [] None"

section \<open>Evaluation of the reference implementation\<close>

lemmas flat_defs =
  flatUtilities_def flat_validateStableRange_def flat_validateStablePlace_def
  flat_rangeFromStableRange_def flat_findIndexWithinTrait_def flat_detachRange_def
  flat_insertIntoTrait_def setTraitChildren_def resolvePlace_def placeTrait_def
  traitOfSibling_def traitChildren_def indexIn_def hasNode_def
  onlyNode_def beforeNode_def afterNode_def atStartOf_def atEndOf_def
  wholeTrait_def rootTrait_def noPlace_def

lemmas document_defs =
  document_def rootNode_def leaf_def insertSnapshotNodes_def holding_def newTransaction_def

lemma deleteNodes_nodes:
  "nodes (deleteNodes s ids) i = (if i \<in> set ids then None else nodes s i)"
proof -
  have "fold (\<lambda>i m. m(i := None)) ids m i = (if i \<in> set ids then None else m i)"
    for m :: "NodeId \<rightharpoonup> SnapshotNode"
    by (induction ids arbitrary: m) auto
  then show ?thesis by (simp add: deleteNodes_def)
qed

lemma payload_update_fields:
  "node\<lparr>payload := x\<rparr> =
     \<lparr>identifier' = identifier' node, definition' = definition' node,
      traits = traits node, payload = x\<rparr>"
  by (cases node) simp

lemma insertSnapshotNodes_empty: "insertSnapshotNodes s Map.empty = s"
  by (simp add: insertSnapshotNodes_def)

section \<open>Insert\<close>

text \<open>
  C4. For every Insert change: if the source is not a key of the detached registry, the
  result is Malformed and the transaction is untouched; if the source is a key and the
  destination validates as Invalid or Malformed against the current view, the result is
  that classification and the transaction is untouched; otherwise the source is removed
  from the registry, the view becomes \<^verbatim>\<open>insertIntoTrait\<close> of the stored identifiers at the
  destination, and the result is Applied.
\<close>

theorem applyInsert_cases:
  "(detached t source = None \<longrightarrow>
      applyInsert u source destination t = Inr (EditResult.Malformed, t))
   \<and> (\<forall>ids. detached t source = Some ids \<longrightarrow>
        (validateStablePlace u (view t) destination = EditValidationResult.Invalid \<longrightarrow>
           applyInsert u source destination t = Inr (EditResult.Invalid, t))
        \<and> (validateStablePlace u (view t) destination = EditValidationResult.Malformed \<longrightarrow>
           applyInsert u source destination t = Inr (EditResult.Malformed, t))
        \<and> (validateStablePlace u (view t) destination = Valid \<longrightarrow>
           applyInsert u source destination t =
             Inr (Applied, t\<lparr>view := insertIntoTrait u (view t) ids destination,
                             detached := (detached t)(source := None)\<rparr>)))"
  by (simp add: applyInsert_def Let_def)

theorem applyInsert_cases_witness:
  "applyInsert flatUtilities 7 (afterNode ''C'') holding = Inr (EditResult.Malformed, holding)
   \<and> applyInsert flatUtilities 1 (afterNode ''Z'') holding = Inr (EditResult.Invalid, holding)
   \<and> applyInsert flatUtilities 1 noPlace holding = Inr (EditResult.Malformed, holding)
   \<and> applyInsert flatUtilities 1 (afterNode ''C'') holding =
        Inr (Applied, holding\<lparr>view := insertIntoTrait flatUtilities (view holding) [''N'']
                                        (afterNode ''C''),
                              detached := (detached holding)(1 := None)\<rparr>)
   \<and> traitChildren (insertIntoTrait flatUtilities (view holding) [''N''] (afterNode ''C''))
        rootTrait = [''A'', ''B'', ''C'', ''N'']"
proof -
  have a: "detached holding 7 = None"
    by (simp add: holding_def)
  have b: "detached holding 1 = Some [''N'']"
    by (simp add: holding_def)
  have c: "validateStablePlace flatUtilities (view holding) (afterNode ''Z'')
             = EditValidationResult.Invalid"
    by (simp add: flat_defs document_defs)
  have d: "validateStablePlace flatUtilities (view holding) noPlace
             = EditValidationResult.Malformed"
    by (simp add: flat_defs document_defs)
  have e: "validateStablePlace flatUtilities (view holding) (afterNode ''C'') = Valid"
    by (simp add: flat_defs document_defs)
  have f: "traitChildren (insertIntoTrait flatUtilities (view holding) [''N''] (afterNode ''C''))
             rootTrait = [''A'', ''B'', ''C'', ''N'']"
    by (simp add: flat_defs document_defs)
  from a b c d e f
    applyInsert_cases [of holding 7 flatUtilities "afterNode ''C''"]
    applyInsert_cases [of holding 1 flatUtilities "afterNode ''Z''"]
    applyInsert_cases [of holding 1 flatUtilities noPlace]
    applyInsert_cases [of holding 1 flatUtilities "afterNode ''C''"]
  show ?thesis by simp
qed

section \<open>Detach\<close>

text \<open>
  C5. For every Detach change whose range validates as Valid, with \<^verbatim>\<open>detachRange\<close>
  returning the residual snapshot and the removed identifiers: if the destination is
  present and occupied in the registry, the result is Malformed and the transaction is
  untouched; if it is present and fresh, the removed identifiers are stored under it, the
  view is the residual snapshot as \<^verbatim>\<open>detachRange\<close> returned it (no record is deleted by
  the interpreter), and the result is Applied; if it is absent, the view is the residual
  snapshot with the removed nodes deleted, so that \<^verbatim>\<open>hasNode\<close> is false for each of them
  and every other record is as in the residual snapshot, and the result is Applied.
\<close>

theorem applyDetach_valid:
  assumes "validateStableRange u (view t) source = Valid"
    and "detachRange u (view t) source = (residual, ids)"
  shows "(detached t dest \<noteq> None \<longrightarrow>
            applyDetach u source (Some dest) t = Inr (EditResult.Malformed, t))
    \<and> (detached t dest = None \<longrightarrow>
            applyDetach u source (Some dest) t =
              Inr (Applied, t\<lparr>view := residual, detached := (detached t)(dest \<mapsto> ids)\<rparr>))
    \<and> applyDetach u source None t = Inr (Applied, t\<lparr>view := deleteNodes residual ids\<rparr>)
    \<and> (\<forall>i \<in> set ids. \<not> hasNode (deleteNodes residual ids) i)
    \<and> (\<forall>i. i \<notin> set ids \<longrightarrow> nodes (deleteNodes residual ids) i = nodes residual i)"
  using assms by (simp add: applyDetach_def hasNode_def deleteNodes_nodes)

theorem applyDetach_valid_witness:
  "validateStableRange flatUtilities (view holding) (onlyNode ''B'') = Valid
   \<and> snd (detachRange flatUtilities (view holding) (onlyNode ''B'')) = [''B'']
   \<and> traitChildren (fst (detachRange flatUtilities (view holding) (onlyNode ''B''))) rootTrait
        = [''A'', ''C'']
   \<and> hasNode (fst (detachRange flatUtilities (view holding) (onlyNode ''B''))) ''B''
   \<and> applyDetach flatUtilities (onlyNode ''B'') (Some 1) holding
        = Inr (EditResult.Malformed, holding)
   \<and> applyDetach flatUtilities (onlyNode ''B'') (Some 2) holding
        = Inr (Applied,
            holding\<lparr>view := fst (detachRange flatUtilities (view holding) (onlyNode ''B'')),
                    detached := (detached holding)(2 \<mapsto> [''B''])\<rparr>)
   \<and> applyDetach flatUtilities (onlyNode ''B'') None holding
        = Inr (Applied,
            holding\<lparr>view := deleteNodes
              (fst (detachRange flatUtilities (view holding) (onlyNode ''B''))) [''B'']\<rparr>)
   \<and> \<not> hasNode (deleteNodes
          (fst (detachRange flatUtilities (view holding) (onlyNode ''B''))) [''B'']) ''B''"
proof -
  have a: "validateStableRange flatUtilities (view holding) (onlyNode ''B'') = Valid"
    by (simp add: flat_defs document_defs)
  have b: "snd (detachRange flatUtilities (view holding) (onlyNode ''B'')) = [''B'']"
    by (simp add: flat_defs document_defs)
  have c: "traitChildren (fst (detachRange flatUtilities (view holding) (onlyNode ''B'')))
             rootTrait = [''A'', ''C'']"
    by (simp add: flat_defs document_defs)
  have d: "detachRange flatUtilities (view holding) (onlyNode ''B'')
             = (fst (detachRange flatUtilities (view holding) (onlyNode ''B'')), [''B''])"
    using b by (metis prod.collapse)
  have e: "detached holding 1 \<noteq> None" and f: "detached holding 2 = None"
    by (simp_all add: holding_def)
  have g: "hasNode (fst (detachRange flatUtilities (view holding) (onlyNode ''B''))) ''B''"
    by (simp add: flat_defs document_defs)
  from applyDetach_valid [OF a d, of 1] applyDetach_valid [OF a d, of 2] a b c e f g
  show ?thesis by simp
qed

section \<open>Constraint\<close>

text \<open>
  C6. For every Constraint change and every transaction state, whatever result the
  constraint returns (Applied, Invalid or Malformed), the view after it equals the view
  before it.
\<close>

theorem applyConstraint_view:
  "applyConstraint u change t = Inr (result, t') \<Longrightarrow> view t' = view t"
  by (auto simp: applyConstraint_def Let_def split: if_splits prod.splits)

theorem applyConstraint_view_witness:
  "\<exists>t'. applyConstraint flatUtilities (lengthConstraint InvalidRetry 5) holding
          = Inr (EditResult.Invalid, t')
        \<and> view t' = view holding"
proof -
  have a: "applyConstraint flatUtilities (lengthConstraint InvalidRetry 5) holding
             = Inr (EditResult.Invalid, holding)"
    by (simp add: applyConstraint_def lengthConstraint_def flat_defs document_defs)
  from a applyConstraint_view [OF a] show ?thesis by blast
qed

text \<open>
  C7 (as amended). For every Constraint change in which \<^verbatim>\<open>identityHash\<close> and
  \<^verbatim>\<open>contentHash\<close> are both absent: if the range validates as
  Malformed, the result is Malformed whatever the effect; on a violation (the range
  validates as Invalid, or the first failing check among length, parent node and label) the
  result is Applied when the effect is ValidRetry and Invalid when it is InvalidRetry; with
  a Valid range and no violation the result is Applied. The transaction is untouched in
  every case.
\<close>

theorem applyConstraint_result:
  assumes "identityHash change = None" and "contentHash change = None"
  shows "(validateStableRange u (view t) (toConstrain change) = EditValidationResult.Malformed
            \<longrightarrow> applyConstraint u change t = Inr (EditResult.Malformed, t))
    \<and> (spec_constraintViolation u change (view t) \<longrightarrow>
          applyConstraint u change t =
            Inr (case effect change of ValidRetry \<Rightarrow> Applied
                 | InvalidRetry \<Rightarrow> EditResult.Invalid, t))
    \<and> (validateStableRange u (view t) (toConstrain change) = Valid
          \<and> \<not> spec_constraintViolation u change (view t) \<longrightarrow>
          applyConstraint u change t = Inr (Applied, t))"
  using assms
  by (cases "effect change")
     (auto simp: applyConstraint_def spec_constraintViolation_def Let_def
           split: prod.splits option.splits)

theorem applyConstraint_result_witness:
  "applyConstraint flatUtilities
       ((lengthConstraint InvalidRetry 3)\<lparr>toConstrain := \<lparr>start = noPlace, finish = noPlace\<rparr>\<rparr>)
       holding = Inr (EditResult.Malformed, holding)
   \<and> applyConstraint flatUtilities (lengthConstraint ValidRetry 5) holding
       = Inr (Applied, holding)
   \<and> applyConstraint flatUtilities (lengthConstraint InvalidRetry 5) holding
       = Inr (EditResult.Invalid, holding)
   \<and> applyConstraint flatUtilities
       ((lengthConstraint InvalidRetry 3)\<lparr>toConstrain := onlyNode ''Z''\<rparr>) holding
       = Inr (EditResult.Invalid, holding)
   \<and> applyConstraint flatUtilities
       ((lengthConstraint InvalidRetry 3)\<lparr>label' := Some ''M''\<rparr>) holding
       = Inr (EditResult.Invalid, holding)
   \<and> applyConstraint flatUtilities (lengthConstraint InvalidRetry 3) holding
       = Inr (Applied, holding)"
proof -
  let ?bad = "(lengthConstraint InvalidRetry 3)\<lparr>toConstrain := \<lparr>start = noPlace, finish = noPlace\<rparr>\<rparr>"
  let ?absent = "(lengthConstraint InvalidRetry 3)\<lparr>toConstrain := onlyNode ''Z''\<rparr>"
  let ?label = "(lengthConstraint InvalidRetry 3)\<lparr>label' := Some ''M''\<rparr>"
  have h: "identityHash (lengthConstraint e n) = None" "contentHash (lengthConstraint e n) = None"
    for e n by (simp_all add: lengthConstraint_def)
  have a: "validateStableRange flatUtilities (view holding) (toConstrain ?bad)
             = EditValidationResult.Malformed"
    by (simp add: lengthConstraint_def flat_defs document_defs)
  have b: "spec_constraintViolation flatUtilities (lengthConstraint e 5) (view holding)" for e
    by (simp add: spec_constraintViolation_def lengthConstraint_def flat_defs document_defs)
  have c: "spec_constraintViolation flatUtilities ?absent (view holding)"
    by (simp add: spec_constraintViolation_def lengthConstraint_def flat_defs document_defs)
  have d: "spec_constraintViolation flatUtilities ?label (view holding)"
    by (simp add: spec_constraintViolation_def lengthConstraint_def flat_defs document_defs)
  have e: "validateStableRange flatUtilities (view holding)
             (toConstrain (lengthConstraint InvalidRetry 3)) = Valid
           \<and> \<not> spec_constraintViolation flatUtilities (lengthConstraint InvalidRetry 3)
                 (view holding)"
    by (simp add: spec_constraintViolation_def lengthConstraint_def flat_defs document_defs)
  have f: "effect (lengthConstraint e n) = e" for e n
    by (simp add: lengthConstraint_def)
  from a b c d e f
    applyConstraint_result [of ?bad flatUtilities holding]
    applyConstraint_result [of "lengthConstraint ValidRetry 5" flatUtilities holding]
    applyConstraint_result [of "lengthConstraint InvalidRetry 5" flatUtilities holding]
    applyConstraint_result [of ?absent flatUtilities holding]
    applyConstraint_result [of ?label flatUtilities holding]
    applyConstraint_result [of "lengthConstraint InvalidRetry 3" flatUtilities holding]
  show ?thesis by (simp add: h)
qed

text \<open>
  The claim as stated, for every Constraint change, fails for one that carries a hash: the
  assertions come before the validation of the range, so a constraint with an
  \<^verbatim>\<open>identityHash\<close> whose range validates as Malformed fails with the assertion and
  returns no result, Malformed or other.
\<close>

theorem constraint_hash_counterexample:
  "validateStableRange flatUtilities (view holding)
       (toConstrain ((lengthConstraint InvalidRetry 3)
          \<lparr>toConstrain := \<lparr>start = noPlace, finish = noPlace\<rparr>, identityHash := Some ''h''\<rparr>))
     = EditValidationResult.Malformed
   \<and> applyConstraint flatUtilities
       ((lengthConstraint InvalidRetry 3)
          \<lparr>toConstrain := \<lparr>start = noPlace, finish = noPlace\<rparr>, identityHash := Some ''h''\<rparr>)
       holding
     = Inl (AssertionFailed ''identityHash constraint is not implemented'')"
  by (simp add: applyConstraint_def lengthConstraint_def flat_defs document_defs)

text \<open>
  C9. For every Constraint change in which \<^verbatim>\<open>identityHash\<close> or \<^verbatim>\<open>contentHash\<close> is
  present, the interpreter fails with an assertion and returns no edit result; for every
  Constraint change in which both are absent, no assertion fires and \<^verbatim>\<open>applyConstraint\<close>
  returns an edit result.
\<close>

theorem applyConstraint_hashes:
  "(identityHash change \<noteq> None \<or> contentHash change \<noteq> None \<longrightarrow>
      (\<exists>message. applyConstraint u change t = Inl (AssertionFailed message)))
   \<and> (identityHash change = None \<and> contentHash change = None \<longrightarrow>
      (\<exists>result. applyConstraint u change t = Inr (result, t)))"
  by (auto simp: applyConstraint_def Let_def split: prod.splits)

theorem applyConstraint_hashes_witness:
  "(\<exists>message. applyConstraint flatUtilities
       ((lengthConstraint ValidRetry 3)\<lparr>identityHash := Some ''h''\<rparr>) holding
       = Inl (AssertionFailed message))
   \<and> (\<exists>message. applyConstraint flatUtilities
       ((lengthConstraint ValidRetry 3)\<lparr>contentHash := Some ''h''\<rparr>) holding
       = Inl (AssertionFailed message))
   \<and> (\<exists>result. applyConstraint flatUtilities (lengthConstraint ValidRetry 3) holding
       = Inr (result, holding))"
  using
    applyConstraint_hashes [of "(lengthConstraint ValidRetry 3)\<lparr>identityHash := Some ''h''\<rparr>"
      flatUtilities holding]
    applyConstraint_hashes [of "(lengthConstraint ValidRetry 3)\<lparr>contentHash := Some ''h''\<rparr>"
      flatUtilities holding]
    applyConstraint_hashes [of "lengthConstraint ValidRetry 3" flatUtilities holding]
  by (simp add: lengthConstraint_def)

section \<open>SetValue\<close>

text \<open>
  C8. For every SetValue change: if the view does not contain the node to modify, the
  result is Invalid and the transaction is untouched; otherwise the result is Applied and
  only the record of that node is replaced, by a record with the same identifier,
  definition and traits, whose payload is absent for the explicit null and is the given
  value otherwise.
\<close>

theorem applySetValue_cases:
  "(\<not> hasNode (view t) nodeToModify \<longrightarrow>
      applySetValue nodeToModify newPayload t = Inr (EditResult.Invalid, t))
   \<and> (hasNode (view t) nodeToModify \<longrightarrow>
      (\<exists>node. getSnapshotNode (view t) nodeToModify = Some node
         \<and> applySetValue nodeToModify newPayload t =
             Inr (Applied,
               t\<lparr>view := (view t)\<lparr>nodes := (nodes (view t))(nodeToModify \<mapsto>
                    \<lparr>identifier' = identifier' node, definition' = definition' node,
                     traits = traits node,
                     payload = (case newPayload of Null \<Rightarrow> None | Value v \<Rightarrow> Some v)\<rparr>)\<rparr>\<rparr>)))"
  by (auto simp: applySetValue_def hasNode_def getSnapshotNode_def replaceNodeData_def
           payload_update_fields split: SetValuePayload.splits)

theorem applySetValue_cases_witness:
  "applySetValue ''Z'' (Value ''x'') holding = Inr (EditResult.Invalid, holding)
   \<and> (\<exists>node. getSnapshotNode (view holding) ''A'' = Some node
        \<and> applySetValue ''A'' (Value ''x'') holding =
            Inr (Applied,
              holding\<lparr>view := (view holding)\<lparr>nodes := (nodes (view holding))(''A'' \<mapsto>
                 \<lparr>identifier' = identifier' node, definition' = definition' node,
                  traits = traits node, payload = Some ''x''\<rparr>)\<rparr>\<rparr>))
   \<and> (\<exists>node. getSnapshotNode (view holding) ''A'' = Some node
        \<and> applySetValue ''A'' Null holding =
            Inr (Applied,
              holding\<lparr>view := (view holding)\<lparr>nodes := (nodes (view holding))(''A'' \<mapsto>
                 \<lparr>identifier' = identifier' node, definition' = definition' node,
                  traits = traits node, payload = None\<rparr>)\<rparr>\<rparr>))"
proof -
  have a: "\<not> hasNode (view holding) ''Z''" and b: "hasNode (view holding) ''A''"
    by (simp_all add: hasNode_def document_defs)
  from a b
    applySetValue_cases [of holding "''Z''" "Value ''x''"]
    applySetValue_cases [of holding "''A''" "Value ''x''"]
    applySetValue_cases [of holding "''A''" Null]
  show ?thesis by simp
qed

section \<open>Build of the empty sequence\<close>

text \<open>
  C10. For every Build change whose source is the empty sequence and whose destination is
  not a key of the detached registry, the result is Applied, the view is unchanged, and
  the empty sequence of identifiers is recorded under the destination; with that entry in
  the registry \<^verbatim>\<open>validateOnClose\<close> answers Malformed, so closing the open transaction
  before the entry is consumed gives the outcome Malformed.
\<close>

theorem applyBuild_empty_source:
  assumes "detached t destination = None"
  shows "applyBuild [] destination t
           = Inr (Applied, t\<lparr>detached := (detached t)(destination \<mapsto> [])\<rparr>)
    \<and> view (t\<lparr>detached := (detached t)(destination \<mapsto> [])\<rparr>) = view t
    \<and> validateOnClose (t\<lparr>detached := (detached t)(destination \<mapsto> [])\<rparr>) = EditResult.Malformed
    \<and> (status t = Open \<longrightarrow>
         outcome (close (t\<lparr>detached := (detached t)(destination \<mapsto> [])\<rparr>)) = EditResult.Malformed)"
  using assms
  by (simp add: applyBuild_def createSnapshotNodesForTree_def applyBuild_locals_def
        insertSnapshotNodes_empty validateOnClose_def close_def)

theorem applyBuild_empty_source_witness:
  "applyBuild [] 2 holding = Inr (Applied, holding\<lparr>detached := (detached holding)(2 \<mapsto> [])\<rparr>)
   \<and> applyBuild [] 2 (newTransaction document)
        = Inr (Applied, (newTransaction document)\<lparr>detached := [2 \<mapsto> []]\<rparr>)
   \<and> outcome (close ((newTransaction document)\<lparr>detached := [2 \<mapsto> []]\<rparr>)) = EditResult.Malformed"
proof -
  have a: "detached holding 2 = None"
    by (simp add: holding_def)
  have b: "detached (newTransaction document) 2 = None"
    and c: "detached (newTransaction document) = Map.empty"
    and d: "status (newTransaction document) = Open"
    by (simp_all add: newTransaction_def)
  from applyBuild_empty_source [OF a] applyBuild_empty_source [OF b] c d
  show ?thesis by simp
qed



section \<open>Closing a transaction\<close>

text \<open>
  C1 (as amended). For every transaction that is still open (no change has failed),
  closing it gives the outcome Malformed when the detached registry is non-empty and the
  outcome Applied when the registry is empty; a transaction that a failed change has
  already closed keeps the classification of that failure, whatever its registry holds.
\<close>

theorem close_outcome:
  "(status t = Open \<longrightarrow>
      outcome (close t) = (if detached t \<noteq> Map.empty then EditResult.Malformed else Applied))
   \<and> (status t = Closed \<longrightarrow> close t = t)"
  by (simp add: close_def validateOnClose_def)

theorem close_outcome_witness:
  "outcome (close holding) = EditResult.Malformed
   \<and> outcome (close (newTransaction document)) = Applied
   \<and> close (holding\<lparr>status := Closed, outcome := EditResult.Invalid\<rparr>)
       = holding\<lparr>status := Closed, outcome := EditResult.Invalid\<rparr>"
proof -
  have a: "status holding = Open" and b: "detached holding \<noteq> Map.empty"
    by (simp_all add: holding_def)
  have c: "status (newTransaction document) = Open"
    and d: "detached (newTransaction document) = Map.empty"
    by (simp_all add: newTransaction_def)
  from a b c d close_outcome [of holding] close_outcome [of "newTransaction document"]
    close_outcome [of "holding\<lparr>status := Closed, outcome := EditResult.Invalid\<rparr>"]
  show ?thesis by simp
qed

text \<open>
  The claim as stated fails once a change has failed: after \<^verbatim>\<open>Build([N], 1)\<close> the
  registry holds the sequence 1, the \<^verbatim>\<open>SetValue\<close> on the absent node \<open>Z\<close> is Invalid and
  closes the transaction, and \<^verbatim>\<open>close\<close> leaves the outcome Invalid although the registry
  is not empty.
\<close>

theorem close_after_failure_counterexample:
  "applyChange flatUtilities (Build [TreeNode ''N'' ''D'' [] None] 1) (newTransaction document)
     = Inr (Applied, holding)
   \<and> applyChange flatUtilities (SetValue ''Z'' Null) holding
     = Inr (EditResult.Invalid, holding\<lparr>status := Closed, outcome := EditResult.Invalid\<rparr>)
   \<and> detached (holding\<lparr>status := Closed, outcome := EditResult.Invalid\<rparr>) \<noteq> Map.empty
   \<and> outcome (close (holding\<lparr>status := Closed, outcome := EditResult.Invalid\<rparr>))
     \<noteq> EditResult.Malformed"
proof -
  have a: "applyChange flatUtilities (Build [TreeNode ''N'' ''D'' [] None] 1)
             (newTransaction document) = Inr (Applied, holding)"
    by (simp add: applyChange_def applyBuild_def createSnapshotNodesForTree_def
          applyBuild_locals_def applyBuild_onCreateNode_def hasNode_def document_defs)
  have b: "applyChange flatUtilities (SetValue ''Z'' Null) holding
             = Inr (EditResult.Invalid, holding\<lparr>status := Closed, outcome := EditResult.Invalid\<rparr>)"
    by (simp add: applyChange_def applySetValue_def hasNode_def document_defs)
  have c: "detached (holding\<lparr>status := Closed, outcome := EditResult.Invalid\<rparr>) \<noteq> Map.empty"
    by (simp add: holding_def)
  have d: "outcome (close (holding\<lparr>status := Closed, outcome := EditResult.Invalid\<rparr>))
             \<noteq> EditResult.Malformed"
    by (simp add: close_def)
  from a b c d show ?thesis by simp
qed

section \<open>The traversal of a build\<close>

lemma referencesOf_append: "referencesOf (xs @ ys) = referencesOf xs @ referencesOf ys"
  by (induction xs rule: referencesOf.induct) simp_all

lemma inlineNodes_append: "inlineNodes (xs @ ys) = inlineNodes xs @ inlineNodes ys"
  by (induction xs rule: inlineNodes.induct) simp_all

lemma inlineNodes_inline: "e \<in> set (inlineNodes es) \<Longrightarrow> \<not> isDetachedSequenceId e"
  by (induction es rule: inlineNodes.induct) auto

lemma traversalOutcome_resolves:
  "traversalOutcome v registry created (map Resolve ds @ events)
     = (case ds of
          [] \<Rightarrow> traversalOutcome v registry created events
        | d # rest \<Rightarrow>
            if registry d = None then (EditResult.Malformed, registry)
            else traversalOutcome v (registry(d := None)) created (map Resolve rest @ events))"
  by (cases ds) simp_all

text \<open>
  The loop over a sequence, run with the callback of \<^verbatim>\<open>applyBuild\<close>: it resolves the
  references of the sequence in order and pushes its inline nodes, or stops at the first
  reference that the registry does not hold.
\<close>

lemma collectIds_events:
  assumes "verdict c = Applied"
  shows "case collectIds applyBuild_onInvalidDetachedId es ids unp (t, c) of
           (None, t', c') \<Rightarrow>
             verdict c' = EditResult.Malformed \<and> t' = t\<lparr>detached := detached t'\<rparr>
             \<and> traversalOutcome v (detached t) created (map Resolve (referencesOf es) @ events)
                 = (EditResult.Malformed, detached t')
         | (Some (ids', unp'), t', c') \<Rightarrow>
             c' = c \<and> unp' = rev (inlineNodes es) @ unp \<and> t' = t\<lparr>detached := detached t'\<rparr>
             \<and> traversalOutcome v (detached t) created (map Resolve (referencesOf es) @ events)
                 = traversalOutcome v (detached t') created events"
proof (induction es arbitrary: ids unp t)
  case Nil
  show ?case by simp
next
  case (Cons e es)
  show ?case
  proof (cases e)
    case (DetachedSequence d)
    show ?thesis
    proof (cases "detached t d")
      case None
      with assms show ?thesis
        by (simp add: DetachedSequence getDetachedNodeIds_def applyBuild_onInvalidDetachedId_def
              verdict_def)
    next
      case (Some dids)
      let ?t1 = "t\<lparr>detached := (detached t)(d := None)\<rparr>"
      have step: "collectIds applyBuild_onInvalidDetachedId (e # es) ids unp (t, c)
               = collectIds applyBuild_onInvalidDetachedId es (ids @ dids) unp (?t1, c)"
        by (simp add: DetachedSequence Some getDetachedNodeIds_def)
      have ev: "traversalOutcome v (detached t) created
                  (map Resolve (referencesOf (e # es)) @ events)
                = traversalOutcome v (detached ?t1) created
                    (map Resolve (referencesOf es) @ events)"
        by (simp add: DetachedSequence Some)
      obtain r t' c' where
        run: "collectIds applyBuild_onInvalidDetachedId es (ids @ dids) unp (?t1, c) = (r, t', c')"
        by (metis prod_cases3)
      from Cons.IH [where ids = "ids @ dids" and unp = unp and t = ?t1] run
      show ?thesis
        unfolding step ev
        by (cases r) (auto simp: DetachedSequence)
    qed
  next
    case (TreeNode i d ts p)
    have step: "collectIds applyBuild_onInvalidDetachedId (e # es) ids unp (t, c)
             = collectIds applyBuild_onInvalidDetachedId es (ids @ [i]) (e # unp) (t, c)"
      by (simp add: TreeNode)
    obtain r t' c' where
      run: "collectIds applyBuild_onInvalidDetachedId es (ids @ [i]) (e # unp) (t, c) = (r, t', c')"
      by (metis prod_cases3)
    from Cons.IH [where ids = "ids @ [i]" and unp = "e # unp" and t = t] run
    show ?thesis
      unfolding step
      by (cases r) (auto simp: TreeNode)
  qed
qed

lemma collectTraits_events:
  assumes "verdict c = Applied"
  shows "case collectTraits applyBuild_onInvalidDetachedId ts tm unp (t, c) of
           (None, t', c') \<Rightarrow>
             verdict c' = EditResult.Malformed \<and> t' = t\<lparr>detached := detached t'\<rparr>
             \<and> traversalOutcome v (detached t) created
                   (map Resolve (referencesOf (childrenOf ts)) @ events)
                 = (EditResult.Malformed, detached t')
         | (Some (tm', unp'), t', c') \<Rightarrow>
             c' = c \<and> unp' = rev (inlineNodes (childrenOf ts)) @ unp
             \<and> t' = t\<lparr>detached := detached t'\<rparr>
             \<and> traversalOutcome v (detached t) created
                   (map Resolve (referencesOf (childrenOf ts)) @ events)
                 = traversalOutcome v (detached t') created events"
proof (induction ts arbitrary: tm unp t)
  case Nil
  show ?case by (simp add: childrenOf_def)
next
  case (Cons x ts)
  obtain key children where x: "x = (key, children)"
    by (cases x)
  let ?rest = "map Resolve (referencesOf (childrenOf ts)) @ events"
  have ev: "map Resolve (referencesOf (childrenOf (x # ts))) @ events
              = map Resolve (referencesOf children) @ ?rest"
    by (simp add: x childrenOf_def referencesOf_append)
  have inl: "rev (inlineNodes (childrenOf (x # ts))) @ unp
               = rev (inlineNodes (childrenOf ts)) @ rev (inlineNodes children) @ unp"
    by (simp add: x childrenOf_def inlineNodes_append)
  obtain r1 t1 c1 where
    g: "collectIds applyBuild_onInvalidDetachedId children [] unp (t, c) = (r1, t1, c1)"
    by (metis prod_cases3)
  show ?case
  proof (cases r1)
    case None
    from collectIds_events [OF assms, where es = children and ids = "[]" and unp = unp
        and t = t and v = v and created = created and events = ?rest] g None
    show ?thesis
      unfolding ev by (simp add: x)
  next
    case (Some a)
    obtain childIds unp1 where a: "a = (childIds, unp1)"
      by (cases a)
    from collectIds_events [OF assms, where es = children and ids = "[]" and unp = unp
        and t = t and v = v and created = created and events = ?rest] g Some a
    have c1: "c1 = c" and unp1: "unp1 = rev (inlineNodes children) @ unp"
      and t1: "t1 = t\<lparr>detached := detached t1\<rparr>"
      and ev1: "traversalOutcome v (detached t) created (map Resolve (referencesOf children) @ ?rest)
                  = traversalOutcome v (detached t1) created ?rest"
      by simp_all
    have step: "collectTraits applyBuild_onInvalidDetachedId (x # ts) tm unp (t, c)
                  = collectTraits applyBuild_onInvalidDetachedId ts
                      (AList.update key childIds tm) unp1 (t1, c)"
      by (simp add: x g Some a c1)
    obtain r t' c' where
      run: "collectTraits applyBuild_onInvalidDetachedId ts (AList.update key childIds tm)
              unp1 (t1, c) = (r, t', c')"
      by (metis prod_cases3)
    have t': "t' = t1\<lparr>detached := detached t'\<rparr> \<Longrightarrow> t' = t\<lparr>detached := detached t'\<rparr>"
      by (subst (asm) t1) simp
    from Cons.IH [where tm = "AList.update key childIds tm" and unp = unp1 and t = t1] run t'
    show ?thesis
      unfolding step ev ev1 inl unp1
      by (cases r) auto
  qed
qed

text \<open>
  The loop over the stack, run with the callbacks of \<^verbatim>\<open>applyBuild\<close> from locals without a
  flag: it ends without a defect, the verdict of its locals and the registry it leaves are
  what the events of the stack come to, nothing but the registry has changed in the
  transaction, and it returns the identifiers exactly when the verdict is Applied.
\<close>

lemma processUnprocessed_events:
  assumes "verdict c = Applied" and "\<forall>e \<in> set unp. \<not> isDetachedSequenceId e"
  shows "\<exists>b t' c'.
           processUnprocessed (applyBuild_onCreateNode v) applyBuild_onInvalidDetachedId
             unp (t, c) = Inr (b, t', c')
           \<and> traversalOutcome v (detached t) (dom (map' c)) (concat (map nodeEvents unp))
               = (verdict c', detached t')
           \<and> t' = t\<lparr>detached := detached t'\<rparr>
           \<and> (b \<longleftrightarrow> verdict c' = Applied)"
  using assms
proof (induction "sum_list (map size unp)" arbitrary: unp t c rule: less_induct)
  case less
  show ?case
  proof (cases unp)
    case Nil
    with less.prems show ?thesis by auto
  next
    case (Cons e rest)
    show ?thesis
    proof (cases e)
      case (DetachedSequence d)
      with less.prems Cons show ?thesis by simp
    next
      case (TreeNode i d ts p)
      let ?after = "concat (map nodeEvents (rev (inlineNodes (childrenOf ts)) @ rest))"
      have ev: "concat (map nodeEvents unp)
                  = map Resolve (referencesOf (childrenOf ts)) @ Create i # ?after"
        by (simp add: Cons TreeNode)
      obtain r1 t1 c1 where
        g: "collectTraits applyBuild_onInvalidDetachedId ts [] rest (t, c) = (r1, t1, c1)"
        by (metis prod_cases3)
      note traits = collectTraits_events [OF less.prems(1), where ts = ts and tm = "[]"
          and unp = rest and t = t and v = v and created = "dom (map' c)"
          and events = "Create i # ?after"]
      show ?thesis
      proof (cases r1)
        case None
        from traits g None
        have "verdict c1 = EditResult.Malformed" and "t1 = t\<lparr>detached := detached t1\<rparr>"
          and "traversalOutcome v (detached t) (dom (map' c)) (concat (map nodeEvents unp))
                 = (EditResult.Malformed, detached t1)"
          unfolding ev by simp_all
        moreover have "processUnprocessed (applyBuild_onCreateNode v)
                         applyBuild_onInvalidDetachedId unp (t, c) = Inr (False, t1, c1)"
          by (simp add: Cons TreeNode g None)
        ultimately show ?thesis by auto
      next
        case (Some a)
        obtain tm unp1 where a: "a = (tm, unp1)"
          by (cases a)
        let ?node = "\<lparr>identifier' = i, definition' = d, traits = tm, payload = p\<rparr>"
        from traits g Some a
        have c1: "c1 = c" and unp1: "unp1 = rev (inlineNodes (childrenOf ts)) @ rest"
          and t1: "t1 = t\<lparr>detached := detached t1\<rparr>"
          and ev1: "traversalOutcome v (detached t) (dom (map' c)) (concat (map nodeEvents unp))
                      = traversalOutcome v (detached t1) (dom (map' c)) (Create i # ?after)"
          unfolding ev by simp_all
        from less.prems(1) have flags: "\<not> detachedSequenceNotFound c" "\<not> duplicateIdInBuild c"
          "\<not> idAlreadyPresent c"
          by (simp_all add: verdict_def split: if_splits)
        consider (dup) "map' c i \<noteq> None"
          | (present) "map' c i = None" "hasNode v i"
          | (fresh) "map' c i = None" "\<not> hasNode v i"
          by blast
        then show ?thesis
        proof cases
          case dup
          then have "processUnprocessed (applyBuild_onCreateNode v)
                       applyBuild_onInvalidDetachedId unp (t, c)
                     = Inr (False, t1, c\<lparr>duplicateIdInBuild := True\<rparr>)"
            by (simp add: Cons TreeNode g Some a c1 applyBuild_onCreateNode_def)
          moreover from dup
          have "traversalOutcome v (detached t) (dom (map' c)) (concat (map nodeEvents unp))
                  = (verdict (c\<lparr>duplicateIdInBuild := True\<rparr>), detached t1)"
            unfolding ev1 by (simp add: verdict_def domIff)
          moreover have "verdict (c\<lparr>duplicateIdInBuild := True\<rparr>) \<noteq> Applied"
            by (simp add: verdict_def)
          ultimately show ?thesis using t1 by blast
        next
          case present
          then have "processUnprocessed (applyBuild_onCreateNode v)
                       applyBuild_onInvalidDetachedId unp (t, c)
                     = Inr (False, t1, c\<lparr>idAlreadyPresent := True\<rparr>)"
            by (simp add: Cons TreeNode g Some a c1 applyBuild_onCreateNode_def)
          moreover from present flags
          have "traversalOutcome v (detached t) (dom (map' c)) (concat (map nodeEvents unp))
                  = (verdict (c\<lparr>idAlreadyPresent := True\<rparr>), detached t1)"
            unfolding ev1 by (simp add: verdict_def domIff)
          moreover from flags have "verdict (c\<lparr>idAlreadyPresent := True\<rparr>) \<noteq> Applied"
            by (simp add: verdict_def)
          ultimately show ?thesis using t1 by blast
        next
          case fresh
          let ?c = "c\<lparr>map' := (map' c)(i \<mapsto> ?node)\<rparr>"
          from flags have v: "verdict ?c = Applied"
            by (simp add: verdict_def)
          from less.prems(2) have inl: "\<forall>e \<in> set unp1. \<not> isDetachedSequenceId e"
            by (auto simp: unp1 Cons dest: inlineNodes_inline)
          from collectTraits_size [of applyBuild_onInvalidDetachedId ts "[]" rest "(t, c)"
              tm unp1 "(t1, c1)"] g Some a size_traits_less [of ts i d p]
          have "sum_list (map size unp1) < sum_list (map size unp)"
            by (simp add: Cons TreeNode)
          from less.hyps [OF this v inl, where t = t1] obtain b t' c' where
            r: "processUnprocessed (applyBuild_onCreateNode v) applyBuild_onInvalidDetachedId
                  unp1 (t1, ?c) = Inr (b, t', c')"
            and o: "traversalOutcome v (detached t1) (dom (map' ?c))
                      (concat (map nodeEvents unp1)) = (verdict c', detached t')"
            and t': "t' = t1\<lparr>detached := detached t'\<rparr>"
            and b: "b \<longleftrightarrow> verdict c' = Applied"
            by blast
          from fresh r
          have "processUnprocessed (applyBuild_onCreateNode v)
                  applyBuild_onInvalidDetachedId unp (t, c) = Inr (b, t', c')"
            by (simp add: Cons TreeNode g Some a c1 applyBuild_onCreateNode_def)
          moreover from fresh o
          have "traversalOutcome v (detached t) (dom (map' c)) (concat (map nodeEvents unp))
                  = (verdict c', detached t')"
            unfolding ev1 by (simp add: domIff unp1)
          moreover from t' have "t' = t\<lparr>detached := detached t'\<rparr>"
            by (subst (asm) t1) simp
          ultimately show ?thesis using b by blast
        qed
      qed
    qed
  qed
qed

text \<open>
  \<^verbatim>\<open>applyBuild\<close> with a free destination: the result is what the events of the source come
  to, and a build that fails leaves the transaction with the registry as it stood at
  the halt, and nothing else changed.
\<close>

lemma applyBuild_traversal:
  assumes "detached t destination = None"
  shows "\<exists>t'. applyBuild source destination t = Inr (firstCondition (view t) (detached t) source, t')
           \<and> (firstCondition (view t) (detached t) source \<noteq> Applied \<longrightarrow>
                t' = t\<lparr>detached := registryAtHalt (view t) (detached t) source\<rparr>)"
proof -
  let ?stack = "concat (map nodeEvents (rev (inlineNodes source)))"
  have start: "verdict applyBuild_locals = Applied"
    by (simp add: verdict_def applyBuild_locals_def)
  obtain r1 t1 c1 where
    g: "collectIds applyBuild_onInvalidDetachedId source [] [] (t, applyBuild_locals)
          = (r1, t1, c1)"
    by (metis prod_cases3)
  note ids = collectIds_events [OF start, where es = source and ids = "[]" and unp = "[]"
      and t = t and v = "view t" and created = "{}" and events = ?stack]
  show ?thesis
  proof (cases r1)
    case None
    from ids g None
    have v: "verdict c1 = EditResult.Malformed" and t1: "t1 = t\<lparr>detached := detached t1\<rparr>"
      and o: "traversalOutcome (view t) (detached t) {} (buildEvents source)
                = (EditResult.Malformed, detached t1)"
      by (simp_all add: buildEvents_def)
    from v have "detachedSequenceNotFound c1 \<or> duplicateIdInBuild c1"
      by (simp add: verdict_def split: if_splits)
    with assms g None
    have "applyBuild source destination t = Inr (EditResult.Malformed, t1)"
      by (simp add: applyBuild_def createSnapshotNodesForTree_def)
    with o t1 show ?thesis
      by (simp add: firstCondition_def registryAtHalt_def)
  next
    case (Some a)
    obtain top unp where a: "a = (top, unp)"
      by (cases a)
    from ids g Some a
    have c1: "c1 = applyBuild_locals" and unp: "unp = rev (inlineNodes source)"
      and t1: "t1 = t\<lparr>detached := detached t1\<rparr>"
      and o1: "traversalOutcome (view t) (detached t) {} (buildEvents source)
                 = traversalOutcome (view t) (detached t1) {} ?stack"
      by (simp_all add: buildEvents_def)
    have inl: "\<forall>e \<in> set unp. \<not> isDetachedSequenceId e"
      by (auto simp: unp dest: inlineNodes_inline)
    from processUnprocessed_events [OF start inl, where v = "view t" and t = t1]
    obtain b t2 c2 where
      r: "processUnprocessed (applyBuild_onCreateNode (view t)) applyBuild_onInvalidDetachedId
            unp (t1, applyBuild_locals) = Inr (b, t2, c2)"
      and o2: "traversalOutcome (view t) (detached t1) (dom (map' applyBuild_locals))
                 (concat (map nodeEvents unp)) = (verdict c2, detached t2)"
      and t2: "t2 = t1\<lparr>detached := detached t2\<rparr>"
      and b: "b \<longleftrightarrow> verdict c2 = Applied"
      by blast
    from o1 o2 have o: "traversalOutcome (view t) (detached t) {} (buildEvents source)
                          = (verdict c2, detached t2)"
      by (simp add: unp applyBuild_locals_def)
    from t2 have t2': "t2 = t\<lparr>detached := detached t2\<rparr>"
      by (subst (asm) t1) simp
    show ?thesis
    proof (cases b)
      case True
      with b have "verdict c2 = Applied"
        by simp
      moreover from this have "\<not> detachedSequenceNotFound c2" "\<not> duplicateIdInBuild c2"
        "\<not> idAlreadyPresent c2"
        by (simp_all add: verdict_def split: if_splits)
      ultimately show ?thesis using assms g Some a c1 r True o
        by (simp add: applyBuild_def createSnapshotNodesForTree_def firstCondition_def)
    next
      case False
      with b have n: "verdict c2 \<noteq> Applied"
        by simp
      then have f: "detachedSequenceNotFound c2 \<or> duplicateIdInBuild c2 \<or> idAlreadyPresent c2"
        by (auto simp: verdict_def split: if_splits)
      with assms g Some a c1 r False
      have "applyBuild source destination t = Inr (verdict c2, t2)"
        by (auto simp: applyBuild_def createSnapshotNodesForTree_def verdict_def)
      with o t2' show ?thesis
        by (simp add: firstCondition_def registryAtHalt_def)
    qed
  qed
qed

lemma applyBuild_occupied:
  "detached t destination \<noteq> None
     \<Longrightarrow> applyBuild source destination t = Inr (EditResult.Malformed, t)"
  by (simp add: applyBuild_def)

lemma traversalOutcome_registry:
  "snd (traversalOutcome v registry created events) \<subseteq>\<^sub>m registry"
proof (induction events arbitrary: registry created)
  case Nil
  show ?case by simp
next
  case (Cons e events)
  show ?case
  proof (cases e)
    case (Resolve d)
    have "registry(d := None) \<subseteq>\<^sub>m registry"
      by (simp add: map_le_def)
    with Cons [of "registry(d := None)" created]
    have "snd (traversalOutcome v (registry(d := None)) created events) \<subseteq>\<^sub>m registry"
      by (rule map_le_trans)
    with Resolve show ?thesis
      by simp
  next
    case (Create i)
    with Cons [of registry "insert i created"] show ?thesis
      by simp
  qed
qed

lemma traversalOutcome_Applied:
  "fst (traversalOutcome v registry created events) = Applied
     \<Longrightarrow> distinct (createdIds events)
         \<and> (\<forall>i \<in> set (createdIds events). i \<notin> created \<and> \<not> hasNode v i)"
proof (induction events arbitrary: registry created)
  case Nil
  show ?case by simp
next
  case (Cons e events)
  show ?case
  proof (cases e)
    case (Resolve d)
    with Cons.prems have "fst (traversalOutcome v (registry(d := None)) created events) = Applied"
      by (simp split: if_splits)
    from Cons.IH [OF this] Resolve show ?thesis
      by simp
  next
    case (Create i)
    with Cons.prems have i: "i \<notin> created" "\<not> hasNode v i"
      and "fst (traversalOutcome v registry (insert i created) events) = Applied"
      by (simp_all split: if_splits)
    from Cons.IH [OF this(3)] i Create show ?thesis
      by auto
  qed
qed

section \<open>The classification of a build\<close>

text \<open>
  C2 (as amended). For every Build change: if the destination is already a key of the
  detached registry, the result is Malformed. Otherwise the result is the classification
  of the first condition that the traversal meets, and the traversal halts there. The
  traversal resolves the top-level references in order; then it takes the inline nodes from
  a stack, the last top-level node first, and for each node it resolves the references
  among its children, creates the node, and goes on with its inline children, last first.
  A reference that the registry does not hold and an identifier already created in this
  build are Malformed; an identifier that the view already holds is Invalid. So a source
  that holds both a duplicate and an identifier present in the view gives Malformed when the
  duplicate is met first and Invalid when the present identifier is met first; the result
  is Applied only if the created identifiers are distinct and none is in the view.
\<close>

theorem applyBuild_first_condition:
  "(detached t destination \<noteq> None \<longrightarrow>
      applyBuild source destination t = Inr (EditResult.Malformed, t))
   \<and> (detached t destination = None \<longrightarrow>
      (\<exists>t'. applyBuild source destination t
               = Inr (firstCondition (view t) (detached t) source, t')))
   \<and> (firstCondition (view t) (detached t) source = Applied \<longrightarrow>
        distinct (createdIds (buildEvents source))
        \<and> (\<forall>i \<in> set (createdIds (buildEvents source)). \<not> hasNode (view t) i))"
proof (intro conjI impI)
  assume "detached t destination \<noteq> None"
  then show "applyBuild source destination t = Inr (EditResult.Malformed, t)"
    by (rule applyBuild_occupied)
next
  assume "detached t destination = None"
  from applyBuild_traversal [OF this, of source]
  show "\<exists>t'. applyBuild source destination t
               = Inr (firstCondition (view t) (detached t) source, t')"
    by blast
next
  assume a: "firstCondition (view t) (detached t) source = Applied"
  from traversalOutcome_Applied [OF a [unfolded firstCondition_def]]
  show "distinct (createdIds (buildEvents source))"
    by simp
next
  assume a: "firstCondition (view t) (detached t) source = Applied"
  from traversalOutcome_Applied [OF a [unfolded firstCondition_def]]
  show "\<forall>i \<in> set (createdIds (buildEvents source)). \<not> hasNode (view t) i"
    by simp
qed

lemmas events_defs =
  firstCondition_def registryAtHalt_def buildEvents_def childrenOf_def nodeX_def nodeA_def

theorem applyBuild_first_condition_witness:
  "applyBuild [nodeX] 1 holding = Inr (EditResult.Malformed, holding)
   \<and> (\<exists>t'. applyBuild [nodeX, nodeX, nodeA] 2 holding = Inr (EditResult.Invalid, t'))
   \<and> (\<exists>t'. applyBuild [nodeA, nodeX, nodeX] 2 holding = Inr (EditResult.Malformed, t'))
   \<and> (\<exists>t'. applyBuild [TreeNode ''P'' ''D'' [(''t'', [DetachedSequence 9])] None,
                          nodeX, nodeX, nodeA] 2 holding = Inr (EditResult.Invalid, t'))
   \<and> (\<exists>t'. applyBuild [TreeNode ''P'' ''D'' [(''t'', [nodeX, nodeX, nodeA])] None] 2 holding
               = Inr (EditResult.Invalid, t'))
   \<and> (\<exists>t'. applyBuild [TreeNode ''P'' ''D'' [(''t'', [nodeA]), (''u'', [nodeX, nodeX])] None]
               2 holding = Inr (EditResult.Malformed, t'))
   \<and> (\<exists>t'. applyBuild [DetachedSequence 1, DetachedSequence 1, nodeA] 2 holding
               = Inr (EditResult.Malformed, t'))
   \<and> (\<exists>t'. applyBuild [DetachedSequence 1, nodeX] 2 holding = Inr (Applied, t'))
   \<and> distinct (createdIds (buildEvents [DetachedSequence 1, nodeX]))"
proof -
  let ?p9 = "[TreeNode ''P'' ''D'' [(''t'', [DetachedSequence 9])] None, nodeX, nodeX, nodeA]"
  let ?pt = "[TreeNode ''P'' ''D'' [(''t'', [nodeX, nodeX, nodeA])] None]"
  let ?pu = "[TreeNode ''P'' ''D'' [(''t'', [nodeA]), (''u'', [nodeX, nodeX])] None]"
  have occupied: "detached holding 1 \<noteq> None" and free: "detached holding 2 = None"
    by (simp_all add: holding_def)
  have a: "firstCondition (view holding) (detached holding) [nodeX, nodeX, nodeA]
             = EditResult.Invalid"
    by (simp add: events_defs hasNode_def document_defs)
  have b: "firstCondition (view holding) (detached holding) [nodeA, nodeX, nodeX]
             = EditResult.Malformed"
    by (simp add: events_defs hasNode_def document_defs)
  have c: "firstCondition (view holding) (detached holding) ?p9 = EditResult.Invalid"
    by (simp add: events_defs hasNode_def document_defs)
  have d: "firstCondition (view holding) (detached holding) ?pt = EditResult.Invalid"
    by (simp add: events_defs hasNode_def document_defs)
  have e: "firstCondition (view holding) (detached holding) ?pu = EditResult.Malformed"
    by (simp add: events_defs hasNode_def document_defs)
  have f: "firstCondition (view holding) (detached holding)
             [DetachedSequence 1, DetachedSequence 1, nodeA] = EditResult.Malformed"
    by (simp add: events_defs hasNode_def document_defs)
  have g: "firstCondition (view holding) (detached holding) [DetachedSequence 1, nodeX]
             = Applied"
    by (simp add: events_defs hasNode_def document_defs)
  from occupied free a b c d e f g
    applyBuild_first_condition [of holding 1 "[nodeX]"]
    applyBuild_first_condition [of holding 2 "[nodeX, nodeX, nodeA]"]
    applyBuild_first_condition [of holding 2 "[nodeA, nodeX, nodeX]"]
    applyBuild_first_condition [of holding 2 ?p9]
    applyBuild_first_condition [of holding 2 ?pt]
    applyBuild_first_condition [of holding 2 ?pu]
    applyBuild_first_condition [of holding 2 "[DetachedSequence 1, DetachedSequence 1, nodeA]"]
    applyBuild_first_condition [of holding 2 "[DetachedSequence 1, nodeX]"]
  show ?thesis by simp
qed

text \<open>
  The claim as stated fails when the identifier present in the view is met first: the
  source holds \<open>X\<close> twice and \<open>A\<close>, which the document already has; the traversal takes
  the last top-level node first, meets \<open>A\<close>, halts, and the result is Invalid.
\<close>

theorem build_dominance_counterexample:
  "hasNode (view (newTransaction document)) ''A''
   \<and> applyBuild [TreeNode ''X'' ''D'' [] None, TreeNode ''X'' ''D'' [] None,
                   TreeNode ''A'' ''D'' [] None] 2 (newTransaction document)
       = Inr (EditResult.Invalid, newTransaction document)"
  by (simp add: applyBuild_def createSnapshotNodesForTree_def
        applyBuild_locals_def applyBuild_onCreateNode_def hasNode_def document_defs)

section \<open>Failed changes\<close>

lemma applyInsert_failed:
  "applyInsert u source place t = Inr (result, t') \<Longrightarrow> result \<noteq> Applied \<Longrightarrow> t' = t"
  by (cases "detached t source") (auto simp: applyInsert_def Let_def split: if_splits)

lemma applyDetach_failed:
  "applyDetach u rng destination t = Inr (result, t') \<Longrightarrow> result \<noteq> Applied \<Longrightarrow> t' = t"
  by (cases destination; cases "detachRange u (view t) rng")
     (auto simp: applyDetach_def Let_def split: if_splits)

lemma applyConstraint_unchanged:
  "applyConstraint u change t = Inr (result, t') \<Longrightarrow> t' = t"
  by (auto simp: applyConstraint_def Let_def split: if_splits prod.splits)

lemma applySetValue_failed:
  "applySetValue nodeToModify newPayload t = Inr (result, t') \<Longrightarrow> result \<noteq> Applied \<Longrightarrow> t' = t"
  by (cases "getSnapshotNode (view t) nodeToModify")
     (auto simp: applySetValue_def Let_def split: if_splits)

lemma applyBuild_failed:
  assumes "applyBuild source destination t = Inr (result, t')" and "result \<noteq> Applied"
  shows "t' = t\<lparr>detached := registryAfterFailure (Build source destination) t\<rparr>"
proof (cases "detached t destination")
  case None
  from applyBuild_traversal [OF None, of source] assms None show ?thesis
    by auto
next
  case (Some ids)
  then have "detached t destination \<noteq> None"
    by simp
  from applyBuild_occupied [OF this, of source] assms Some show ?thesis
    by simp
qed

text \<open>
  C3 (as amended). For every change of any kind, if the result is not Applied (Invalid or
  Malformed), the view is exactly as it was before and nothing but the detached registry
  has changed in the transaction. The registry is exactly as it was after a failing Insert,
  Detach, Constraint or SetValue and after a Build whose destination is occupied. A
  failing Build with a free destination leaves the registry as it stood when its traversal
  halted: every sequence that the traversal resolved before the first unresolved
  reference, duplicate identifier or identifier present in the view has been removed from
  it, and every other entry is as it was.
\<close>

theorem failed_change_state:
  assumes "dispatchChange u change t = Inr (result, t')" and "result \<noteq> Applied"
  shows "t' = t\<lparr>detached := registryAfterFailure change t\<rparr>
    \<and> view t' = view t
    \<and> detached t' = registryAfterFailure change t
    \<and> detached t' \<subseteq>\<^sub>m detached t"
proof -
  have eq: "t' = t\<lparr>detached := registryAfterFailure change t\<rparr>"
  proof (cases change)
    case (Build source destination)
    with assms(1) have "applyBuild source destination t = Inr (result, t')"
      by simp
    from applyBuild_failed [OF this assms(2)] Build show ?thesis
      by simp
  next
    case (Insert source destination)
    with assms(1) have "applyInsert u source destination t = Inr (result, t')"
      by simp
    from applyInsert_failed [OF this assms(2)] Insert show ?thesis
      by simp
  next
    case (Detach source destination)
    with assms(1) have "applyDetach u source destination t = Inr (result, t')"
      by simp
    from applyDetach_failed [OF this assms(2)] Detach show ?thesis
      by simp
  next
    case (Constraint c)
    with assms(1) have "applyConstraint u c t = Inr (result, t')"
      by simp
    from applyConstraint_unchanged [OF this] Constraint show ?thesis
      by simp
  next
    case (SetValue nodeToModify newPayload)
    with assms(1) have "applySetValue nodeToModify newPayload t = Inr (result, t')"
      by simp
    from applySetValue_failed [OF this assms(2)] SetValue show ?thesis
      by simp
  qed
  have "registryAfterFailure change t \<subseteq>\<^sub>m detached t"
    by (cases change) (simp_all add: registryAtHalt_def traversalOutcome_registry)
  moreover from eq have "view t' = view t" and "detached t' = registryAfterFailure change t"
    by (metis Transaction.select_convs(1) Transaction.surjective Transaction.update_convs(2),
        metis Transaction.select_convs(2) Transaction.surjective Transaction.update_convs(2))
  ultimately show ?thesis using eq by simp
qed

theorem failed_change_state_witness:
  "dispatchChange flatUtilities (SetValue ''Z'' Null) holding = Inr (EditResult.Invalid, holding)
   \<and> registryAfterFailure (SetValue ''Z'' Null) holding = detached holding
   \<and> dispatchChange flatUtilities (Build [DetachedSequence 1, nodeX, nodeX] 2) holding
       = Inr (EditResult.Malformed, holding\<lparr>detached := Map.empty\<rparr>)
   \<and> registryAfterFailure (Build [DetachedSequence 1, nodeX, nodeX] 2) holding = Map.empty
   \<and> view (holding\<lparr>detached := Map.empty\<rparr>) = view holding"
proof -
  let ?b = "Build [DetachedSequence 1, nodeX, nodeX] 2"
  have a: "dispatchChange flatUtilities (SetValue ''Z'' Null) holding
             = Inr (EditResult.Invalid, holding)"
    by (simp add: applySetValue_def hasNode_def document_defs)
  have b: "dispatchChange flatUtilities ?b holding
             = Inr (EditResult.Malformed, holding\<lparr>detached := Map.empty\<rparr>)"
    by (simp add: applyBuild_def createSnapshotNodesForTree_def getDetachedNodeIds_def
          applyBuild_locals_def applyBuild_onCreateNode_def hasNode_def nodeX_def document_defs)
  have c: "EditResult.Invalid \<noteq> Applied" "EditResult.Malformed \<noteq> Applied"
    by simp_all
  have d: "registryAfterFailure ?b holding = Map.empty"
    by (simp add: events_defs hasNode_def document_defs)
  from failed_change_state [OF a c(1)] failed_change_state [OF b c(2)] a b d
  show ?thesis by simp
qed

text \<open>
  The claim as stated fails for a Build that fails after it has resolved a reference:
  the transaction holds the sequence 1; the build refers to it and then meets the
  identifier \<open>X\<close> twice. The result is Malformed and the sequence 1 is gone from the
  registry.
\<close>

theorem failed_build_counterexample:
  "dispatchChange flatUtilities
     (Build [DetachedSequence 1, TreeNode ''X'' ''D'' [] None, TreeNode ''X'' ''D'' [] None] 2)
     holding = Inr (EditResult.Malformed, holding\<lparr>detached := Map.empty\<rparr>)
   \<and> detached holding 1 = Some [''N'']
   \<and> detached (holding\<lparr>detached := Map.empty\<rparr>) 1 = None"
  by (simp add: applyBuild_def createSnapshotNodesForTree_def getDetachedNodeIds_def
        applyBuild_locals_def applyBuild_onCreateNode_def hasNode_def document_defs)

end
